theory Spec2Isabelle
  imports Main
begin

section \<open>JavaScript values and objects\<close>

text \<open>
  The registry never looks inside the regular expressions, arrays or nested objects that a
  declaration carries: it copies them and tests whether a key is present. Such values are
  therefore references (\<open>Ref\<close>, an address), on which JavaScript's \<open>===\<close> is identity,
  as it is equality of contents on strings and on \<open>undefined\<close>. HOL's \<open>=\<close> on \<open>jsval\<close> is
  \<open>===\<close>.
\<close>

datatype jsval = Undefined | Null | Bool bool | Str string | Ref nat

text \<open>
  A plain object: its own properties. The order of the keys is never observed by the
  registry, so an object is a map.
\<close>

type_synonym object = "string \<rightharpoonup> jsval"

text \<open>\<^verbatim>\<open>ob.key\<close>: a missing property reads as \<open>undefined\<close>.\<close>

definition get_prop :: "object \<Rightarrow> string \<Rightarrow> jsval" where
  "get_prop ob key = (case ob key of None \<Rightarrow> Undefined | Some v \<Rightarrow> v)"

text \<open>\<^verbatim>\<open>key in ob\<close>.\<close>

definition has_prop :: "string \<Rightarrow> object \<Rightarrow> bool" where
  "has_prop key ob = (ob key \<noteq> None)"

text \<open>\<^verbatim>\<open>{ ...a, ...b }\<close>: the properties of \<open>a\<close>, then those of \<open>b\<close> over them.\<close>

definition spread :: "object \<Rightarrow> object \<Rightarrow> object" where
  "spread a b = a ++ b"

text \<open>\<^verbatim>\<open>s.startsWith(p)\<close>.\<close>

definition startsWith :: "string \<Rightarrow> string \<Rightarrow> bool" where
  "startsWith s p = (take (length p) s = p)"

text \<open>\<^verbatim>\<open>xs.findIndex(p)\<close>, with \<open>None\<close> for \<open>-1\<close>.\<close>

fun findIndex :: "('a \<Rightarrow> bool) \<Rightarrow> 'a list \<Rightarrow> nat option" where
  "findIndex p [] = None"
| "findIndex p (x # xs) = (if p x then Some 0 else map_option Suc (findIndex p xs))"

text \<open>\<^verbatim>\<open>new Map(entries)\<close>: a later entry replaces an earlier one with the same key.\<close>

definition new_Map :: "('k \<times> 'v) list \<Rightarrow> ('k \<rightharpoonup> 'v)" where
  "new_Map entries = fold (\<lambda>(k, v) m. m(k \<mapsto> v)) entries Map.empty"

text \<open>\<^verbatim>\<open>[...new Set(xs)]\<close>: the elements of \<open>xs\<close>, each at its first occurrence.\<close>

definition new_Set :: "'a list \<Rightarrow> 'a list" where
  "new_Set xs = rev (remdups (rev xs))"

text \<open>A thrown value: \<^verbatim>\<open>new Error(message)\<close>, or the rejection of a collaborator.\<close>

datatype error = Error string

section \<open>The data model\<close>

record EdgeFunction =
  name :: string
  path :: string

text \<open>
  An \<open>EdgeFunctionDeclaration\<close> is an object with a \<open>function\<close> property and a \<open>path\<close>
  or a \<open>pattern\<close>; declarations read from the sources may carry other properties.
\<close>

type_synonym EdgeFunctionDeclaration = object

text \<open>The function being passed to the bundler, as the object it is.\<close>

definition EdgeFunction_object :: "EdgeFunction \<Rightarrow> object" where
  "EdgeFunction_object func = [''name'' \<mapsto> Str (name func), ''path'' \<mapsto> Str (path func)]"

text \<open>An entry of the environment configuration: \<^verbatim>\<open>{ value, sources }\<close>.\<close>

record env_variable =
  var_value :: string
  var_sources :: "string list"

text \<open>
  The module graph of a build:
  \<^verbatim>\<open>{ modules: [{ specifier, dependencies?: [{ code?: { specifier } }] }] }\<close>.
  The specifier of a dependency is tested with \<open>typeof\<close>, so it is any value.
\<close>

datatype dependency_code = Code (code_specifier: jsval)

record dependency =
  code :: "dependency_code option"

record graph_module =
  specifier :: string
  dependencies :: "dependency list option"

record graph =
  modules :: "graph_module list"

text \<open>What \<open>runIsolate\<close> resolves to.\<close>

record isolate_result =
  functionsConfig :: "object list"
  graph :: "graph option"
  success :: bool

text \<open>
  The manifest of the bundler. A route carries the name of its function and a pattern:
  the source of a regular expression in the manifest, the compiled expression (its
  \<open>test\<close>) once \<open>matchURLPath\<close> has mapped over the routes.
\<close>

record 'p route =
  route_function :: string
  route_pattern :: 'p

record function_config_entry =
  excluded_patterns :: "string list"

record manifest =
  routes :: "string route list"
  post_cache_routes :: "string route list"
  function_config :: "string \<rightharpoonup> function_config_entry"

record manifest_options =
  opt_declarations :: "EdgeFunctionDeclaration list"
  opt_functions :: "object list"

text \<open>
  The collaborators. Each is a function of its arguments that returns or throws
  (\<open>Inl\<close>); what it answers is not decided here.
\<close>

record bundler =
  bundler_find :: "string list \<Rightarrow> error + EdgeFunction list"
  generateManifest :: "manifest_options \<Rightarrow> error + manifest"

text \<open>
  The two library functions of the platform that the registry calls:
  \<open>fileURLToPath\<close> of Node's \<open>url\<close> module, which throws on a URL it cannot turn into a
  path, and the \<open>RegExp\<close> constructor, which throws on a malformed source and otherwise
  gives an expression, taken as its \<open>test\<close>.
\<close>

record platform =
  fileURLToPath :: "string \<Rightarrow> error + string"
  RegExp :: "string \<Rightarrow> error + (string \<Rightarrow> bool)"

text \<open>What the registry does to the outside: calls of \<open>runIsolate\<close> and console output.\<close>

datatype message =
  Loaded string | Removed string | Reloading | Reloaded_all | Reloaded string | Failed_reloading

datatype effect = RunIsolate "EdgeFunction list" | Log message | Warn string

text \<open>
  The fields of the class that the operations below read or write (\<open>functionList\<close> is
  the field \<open>functions\<close>), and \<open>effects\<close>: the calls and output so far, oldest first.
  The asynchronous operations are run one at a time, each to its end.
\<close>

record registry =
  bundler :: bundler
  directories :: "string list"
  internalFunctions :: "EdgeFunctionDeclaration list"
  runIsolate :: "EdgeFunction list \<Rightarrow> (string \<rightharpoonup> string) \<Rightarrow> error + isolate_result"
  buildError :: "error option"
  declarationsFromConfig :: "EdgeFunctionDeclaration list"
  declarationsFromSource :: "EdgeFunctionDeclaration list"
  env :: "string \<rightharpoonup> string"
  dependencyPaths :: "string \<rightharpoonup> string list"
  functionPaths :: "string \<rightharpoonup> string"
  functionList :: "EdgeFunction list"
  effects :: "effect list"

record config =
  edge_functions :: "EdgeFunctionDeclaration list option"

section \<open>The operations\<close>

subsection \<open>getEnvironmentVariables\<close>

text \<open>The argument is \<^verbatim>\<open>Object.entries(envConfig)\<close>.\<close>

definition getEnvironmentVariables :: "(string \<times> env_variable) list \<Rightarrow> (string \<rightharpoonup> string)" where
  "getEnvironmentVariables envConfig =
     (fold (\<lambda>(key, variable) env.
              if ''ui'' \<in> set (var_sources variable) \<or>
                 ''account'' \<in> set (var_sources variable) \<or>
                 ''addons'' \<in> set (var_sources variable) \<or>
                 ''internal'' \<in> set (var_sources variable)
              then env(key \<mapsto> var_value variable) else env)
           envConfig Map.empty)
     (''DENO_REGION'' \<mapsto> ''local'')"

subsection \<open>getDeclarationsFromConfig and the constructor\<close>

definition getDeclarationsFromConfig :: "EdgeFunctionDeclaration list \<Rightarrow> config \<Rightarrow> EdgeFunctionDeclaration list" where
  "getDeclarationsFromConfig internal cfg =
     (case edge_functions cfg of None \<Rightarrow> [] | Some userFunctions \<Rightarrow> userFunctions) @ internal"

text \<open>
  The state the constructor leaves, before the initial scan (which it starts and does not
  await) has assigned \<open>functions\<close>.
\<close>

definition new_registry ::
  "bundler \<Rightarrow> config \<Rightarrow> string list \<Rightarrow> (string \<times> env_variable) list \<Rightarrow> EdgeFunctionDeclaration list \<Rightarrow>
   (EdgeFunction list \<Rightarrow> (string \<rightharpoonup> string) \<Rightarrow> error + isolate_result) \<Rightarrow> registry" where
  "new_registry b cfg dirs envConfig internal run =
     \<lparr> bundler = b, directories = dirs, internalFunctions = internal, runIsolate = run,
       buildError = None,
       declarationsFromConfig = getDeclarationsFromConfig internal cfg,
       declarationsFromSource = [],
       env = getEnvironmentVariables envConfig,
       dependencyPaths = Map.empty, functionPaths = Map.empty, functionList = [],
       effects = [] \<rparr>"

subsection \<open>mergeDeclarations\<close>

text \<open>The body of the \<open>forEach\<close>: one declaration from the sources met.\<close>

definition merge_declaration :: "EdgeFunctionDeclaration list \<Rightarrow> EdgeFunctionDeclaration \<Rightarrow> EdgeFunctionDeclaration list" where
  "merge_declaration declarations declarationFromSource =
     (case findIndex (\<lambda>d. get_prop d ''function'' = get_prop declarationFromSource ''function'')
             declarations of
        None \<Rightarrow> declarations @ [declarationFromSource]
      | Some index \<Rightarrow>
          declarations[index := spread (declarations ! index) declarationFromSource])"

text \<open>The array \<open>declarations\<close> once the \<open>forEach\<close> is over, before the filter.\<close>

definition merged_declarations :: "registry \<Rightarrow> EdgeFunctionDeclaration list" where
  "merged_declarations st =
     foldl merge_declaration (declarationsFromConfig st) (declarationsFromSource st)"

definition mergeDeclarations :: "registry \<Rightarrow> EdgeFunctionDeclaration list" where
  "mergeDeclarations st =
     filter (\<lambda>declaration. has_prop ''path'' declaration \<or> has_prop ''pattern'' declaration)
       (merged_declarations st)"

subsection \<open>processGraph\<close>

text \<open>The inner \<open>forEach\<close>, over the dependencies of a module of function \<open>functionMatch\<close>.\<close>

fun add_dependencies ::
  "platform \<Rightarrow> string \<Rightarrow> dependency list \<Rightarrow> (string \<rightharpoonup> string list) \<Rightarrow>
   error + (string \<rightharpoonup> string list)" where
  "add_dependencies P functionMatch [] deps = Inr deps"
| "add_dependencies P functionMatch (d # ds) deps =
     (case code d of
        None \<Rightarrow> add_dependencies P functionMatch ds deps
      | Some c \<Rightarrow>
          (case code_specifier c of
             Str dependencyURL \<Rightarrow>
               if \<not> startsWith dependencyURL ''file://''
               then add_dependencies P functionMatch ds deps
               else (case fileURLToPath P dependencyURL of
                       Inl e \<Rightarrow> Inl e
                     | Inr dependencyPath \<Rightarrow>
                         add_dependencies P functionMatch ds
                           (deps(dependencyPath \<mapsto>
                              (case deps dependencyPath of None \<Rightarrow> [] | Some fs \<Rightarrow> fs)
                              @ [functionMatch])))
           | _ \<Rightarrow> add_dependencies P functionMatch ds deps))"

text \<open>
  The outer \<open>forEach\<close>, over the modules. \<^verbatim>\<open>if (!functionMatch)\<close> skips a module
  that is no function's file, and one whose function has the empty name.
\<close>

fun process_modules ::
  "platform \<Rightarrow> (string \<rightharpoonup> string) \<Rightarrow> graph_module list \<Rightarrow> (string \<rightharpoonup> string list) \<Rightarrow>
   error + (string \<rightharpoonup> string list)" where
  "process_modules P fpaths [] deps = Inr deps"
| "process_modules P fpaths (m # ms) deps =
     (if \<not> startsWith (specifier m) ''file://'' then process_modules P fpaths ms deps
      else (case fileURLToPath P (specifier m) of
              Inl e \<Rightarrow> Inl e
            | Inr p \<Rightarrow>
                (case fpaths p of
                   None \<Rightarrow> process_modules P fpaths ms deps
                 | Some functionMatch \<Rightarrow>
                     if functionMatch = [] then process_modules P fpaths ms deps
                     else (case add_dependencies P functionMatch
                                  (case dependencies m of None \<Rightarrow> [] | Some ds \<Rightarrow> ds) deps of
                             Inl e \<Rightarrow> Inl e
                           | Inr deps' \<Rightarrow> process_modules P fpaths ms deps'))))"

definition graph_warning :: string where
  "graph_warning =
     ''Could not process edge functions dependency graph. Live reload will not be available.''"

definition processGraph :: "platform \<Rightarrow> graph option \<Rightarrow> registry \<Rightarrow> (error + unit) \<times> registry" where
  "processGraph P gr st =
     (case gr of
        None \<Rightarrow> (Inr (), st\<lparr>effects := effects st @ [Warn graph_warning]\<rparr>)
      | Some g \<Rightarrow>
          (let fpaths = new_Map (map (\<lambda>func. (path func, name func)) (functionList st))
           in case process_modules P fpaths (modules g) Map.empty of
                Inl e \<Rightarrow> (Inl e, st)
              | Inr deps \<Rightarrow> (Inr (), st\<lparr>dependencyPaths := deps, functionPaths := fpaths\<rparr>)))"

subsection \<open>build\<close>

text \<open>
  \<^verbatim>\<open>{ function: func.name, ...functionsConfig[index] }\<close>: an index past the end of
  the array reads \<open>undefined\<close>, whose spread adds nothing.
\<close>

definition declaration_of_source :: "object list \<Rightarrow> nat \<Rightarrow> EdgeFunction \<Rightarrow> EdgeFunctionDeclaration" where
  "declaration_of_source fconfig index func =
     spread [''function'' \<mapsto> Str (name func)]
       (if index < length fconfig then fconfig ! index else Map.empty)"

definition build :: "platform \<Rightarrow> EdgeFunction list \<Rightarrow> registry \<Rightarrow> (error + unit) \<times> registry" where
  "build P funcs st =
     (let st1 = st\<lparr>effects := effects st @ [RunIsolate funcs]\<rparr>
      in case runIsolate st funcs (env st) of
           Inl e \<Rightarrow> (Inl e, st1\<lparr>buildError := Some e\<rparr>)
         | Inr r \<Rightarrow>
             if \<not> success r
             then (Inl (Error ''Build error''), st1\<lparr>buildError := Some (Error ''Build error'')\<rparr>)
             else (case processGraph P (graph r)
                          (st1\<lparr>buildError := None,
                               declarationsFromSource :=
                                 map (\<lambda>(index, func). declaration_of_source (functionsConfig r) index func)
                                   (enumerate 0 funcs)\<rparr>) of
                     (Inl e, st3) \<Rightarrow> (Inl e, st3\<lparr>buildError := Some e\<rparr>)
                   | (Inr u, st3) \<Rightarrow> (Inr u, st3)))"

subsection \<open>checkForAddedOrDeletedFunctions\<close>

definition newFunctions :: "registry \<Rightarrow> EdgeFunction list \<Rightarrow> EdgeFunction list" where
  "newFunctions st functionsFound =
     filter (\<lambda>func.
        if list_ex (\<lambda>existingFunc. name func = name existingFunc \<and> path func = path existingFunc)
             (functionList st)
        then False
        else list_ex (\<lambda>declaration. get_prop declaration ''function'' = Str (name func))
               (declarationsFromConfig st))
       functionsFound"

definition deletedFunctions :: "registry \<Rightarrow> EdgeFunction list \<Rightarrow> EdgeFunction list" where
  "deletedFunctions st functionsFound =
     filter (\<lambda>existingFunc.
        \<not> list_ex (\<lambda>func. name func = name existingFunc \<and> path func = path existingFunc)
            functionsFound)
       (functionList st)"

definition checkForAddedOrDeletedFunctions :: "platform \<Rightarrow> registry \<Rightarrow> (error + unit) \<times> registry" where
  "checkForAddedOrDeletedFunctions P st =
     (case bundler_find (bundler st) (directories st) of
        Inl e \<Rightarrow> (Inl e, st)
      | Inr functionsFound \<Rightarrow>
          (let new = newFunctions st functionsFound;
               deleted = deletedFunctions st functionsFound;
               st1 = st\<lparr>functionList := functionsFound\<rparr>
           in if new = [] \<and> deleted = [] then (Inr (), st1)
              else (case build P functionsFound st1 of
                      (Inl e, st2) \<Rightarrow> (Inr (), st2)
                    | (Inr u, st2) \<Rightarrow>
                        (Inr (), st2\<lparr>effects := effects st2
                                     @ map (\<lambda>func. Log (Removed (name func))) deleted
                                     @ map (\<lambda>func. Log (Loaded (name func))) new\<rparr>))))"

subsection \<open>handleFileChange\<close>

text \<open>\<^verbatim>\<open>filter(Boolean)\<close> drops \<open>undefined\<close> and the empty string.\<close>

definition matchingFunctions :: "registry \<Rightarrow> string \<Rightarrow> string list" where
  "matchingFunctions st p =
     new_Set (filter (\<lambda>n. n \<noteq> [])
       ((case functionPaths st p of None \<Rightarrow> [] | Some n \<Rightarrow> [n])
        @ (case dependencyPaths st p of None \<Rightarrow> [] | Some ns \<Rightarrow> ns)))"

definition handleFileChange :: "platform \<Rightarrow> string \<Rightarrow> registry \<Rightarrow> registry" where
  "handleFileChange P p st =
     (let matching = matchingFunctions st p
      in if matching = [] \<and> buildError st = None then st
         else (case build P (functionList st) (st\<lparr>effects := effects st @ [Log Reloading]\<rparr>) of
                 (Inl e, st2) \<Rightarrow> st2\<lparr>effects := effects st2 @ [Log Failed_reloading]\<rparr>
               | (Inr u, st2) \<Rightarrow>
                   if matching = [] then st2\<lparr>effects := effects st2 @ [Log Reloaded_all]\<rparr>
                   else st2\<lparr>effects := effects st2 @ map (\<lambda>n. Log (Reloaded n)) matching\<rparr>))"

subsection \<open>scan\<close>

definition scan :: "string list \<Rightarrow> registry \<Rightarrow> (error + EdgeFunction list) \<times> registry" where
  "scan dirs st =
     (case bundler_find (bundler st) dirs of
        Inl e \<Rightarrow> (Inl e, st)
      | Inr fs \<Rightarrow>
          (Inr fs, st\<lparr>effects := effects st @ map (\<lambda>func. Log (Loaded (name func))) fs,
                      functionList := fs\<rparr>))"

subsection \<open>matchURLPath\<close>

text \<open>The \<open>map\<close> that compiles the pattern of every route, in order.\<close>

fun compile_routes :: "platform \<Rightarrow> string route list \<Rightarrow> error + (string \<Rightarrow> bool) route list" where
  "compile_routes P [] = Inr []"
| "compile_routes P (r # rs) =
     (case RegExp P (route_pattern r) of
        Inl e \<Rightarrow> Inl e
      | Inr re \<Rightarrow>
          (case compile_routes P rs of
             Inl e \<Rightarrow> Inl e
           | Inr rs' \<Rightarrow> Inr (\<lparr>route_function = route_function r, route_pattern = re\<rparr> # rs')))"

text \<open>
  \<^verbatim>\<open>patterns.some((pattern) => new RegExp(pattern).test(urlPath))\<close>: it stops at the
  first pattern that matches.
\<close>

fun some_pattern :: "platform \<Rightarrow> string \<Rightarrow> string list \<Rightarrow> error + bool" where
  "some_pattern P urlPath [] = Inr False"
| "some_pattern P urlPath (p # ps) =
     (case RegExp P p of
        Inl e \<Rightarrow> Inl e
      | Inr re \<Rightarrow> if re urlPath then Inr True else some_pattern P urlPath ps)"

text \<open>
  \<^verbatim>\<open>manifest.function_config[name]?.excluded_patterns.some(...)\<close>. The map
  \<open>function_config\<close> holds the own entries of a plain object: a name without an entry
  reads \<open>undefined\<close>, and the route is not excluded, unless the name is that of a member
  of \<open>Object.prototype\<close>; then the read gives that member, which has no
  \<open>excluded_patterns\<close>, and \<open>some\<close> is called on \<open>undefined\<close>: a \<open>TypeError\<close>.
\<close>

definition Object_prototype_members :: "string list" where
  "Object_prototype_members =
     [''constructor'', ''__defineGetter__'', ''__defineSetter__'', ''hasOwnProperty'',
      ''__lookupGetter__'', ''__lookupSetter__'', ''isPrototypeOf'', ''propertyIsEnumerable'',
      ''toString'', ''valueOf'', ''__proto__'', ''toLocaleString'']"

definition isExcluded :: "platform \<Rightarrow> manifest \<Rightarrow> string \<Rightarrow> string \<Rightarrow> error + bool" where
  "isExcluded P m urlPath n =
     (case function_config m n of
        None \<Rightarrow>
          if n \<in> set Object_prototype_members
          then Inl (Error ''TypeError: Cannot read properties of undefined (reading some)'')
          else Inr False
      | Some fc \<Rightarrow> some_pattern P urlPath (excluded_patterns fc))"

text \<open>The second \<open>filter\<close> and the \<open>map\<close>, over the routes whose pattern matched.\<close>

fun not_excluded ::
  "platform \<Rightarrow> manifest \<Rightarrow> string \<Rightarrow> (string \<Rightarrow> bool) route list \<Rightarrow> error + string list" where
  "not_excluded P m urlPath [] = Inr []"
| "not_excluded P m urlPath (r # rs) =
     (case isExcluded P m urlPath (route_function r) of
        Inl e \<Rightarrow> Inl e
      | Inr excluded \<Rightarrow>
          (case not_excluded P m urlPath rs of
             Inl e \<Rightarrow> Inl e
           | Inr ns \<Rightarrow> Inr (if excluded then ns else route_function r # ns)))"

definition matchURLPathAgainstOrphanedDeclarations ::
  "platform \<Rightarrow> string \<Rightarrow> registry \<Rightarrow> error + string list" where
  "matchURLPathAgainstOrphanedDeclarations P urlPath st =
     (case generateManifest (bundler st)
             \<lparr>opt_declarations = declarationsFromConfig st,
              opt_functions =
                map (\<lambda>declaration. [''name'' \<mapsto> get_prop declaration ''function'', ''path'' \<mapsto> Str []])
                  (declarationsFromConfig st)\<rparr> of
        Inl e \<Rightarrow> Inl e
      | Inr m \<Rightarrow>
          (case compile_routes P (routes m @ post_cache_routes m) of
             Inl e \<Rightarrow> Inl e
           | Inr rs \<Rightarrow>
               Inr (map route_function
                      (filter (\<lambda>r. if list_ex (\<lambda>func. name func = route_function r) (functionList st)
                                   then False else route_pattern r urlPath)
                         rs))))"

record match_result =
  functionNames :: "string list"
  orphanedDeclarations :: "string list"

definition matchURLPath :: "platform \<Rightarrow> string \<Rightarrow> registry \<Rightarrow> error + match_result" where
  "matchURLPath P urlPath st =
     (case generateManifest (bundler st)
             \<lparr>opt_declarations = mergeDeclarations st,
              opt_functions = map EdgeFunction_object (functionList st)\<rparr> of
        Inl e \<Rightarrow> Inl e
      | Inr m \<Rightarrow>
          (case compile_routes P (routes m @ post_cache_routes m) of
             Inl e \<Rightarrow> Inl e
           | Inr rs \<Rightarrow>
               (case not_excluded P m urlPath (filter (\<lambda>r. route_pattern r urlPath) rs) of
                  Inl e \<Rightarrow> Inl e
                | Inr names \<Rightarrow>
                    (case matchURLPathAgainstOrphanedDeclarations P urlPath st of
                       Inl e \<Rightarrow> Inl e
                     | Inr orphans \<Rightarrow>
                         Inr \<lparr>functionNames = names, orphanedDeclarations = orphans\<rparr>))))"

section \<open>The merge, as the specification words it\<close>

text \<open>The function a declaration names, and whether a declaration can be routed.\<close>

definition function_of :: "EdgeFunctionDeclaration \<Rightarrow> jsval" where
  "function_of d = get_prop d ''function''"

definition routable :: "EdgeFunctionDeclaration \<Rightarrow> bool" where
  "routable d = (has_prop ''path'' d \<or> has_prop ''pattern'' d)"

text \<open>
  A declaration with the fields of every declaration of \<open>srcs\<close> for the same function
  merged onto it, in the order of \<open>srcs\<close>, a later field over an earlier one.
\<close>

definition absorb :: "EdgeFunctionDeclaration \<Rightarrow> EdgeFunctionDeclaration list \<Rightarrow> EdgeFunctionDeclaration" where
  "absorb d srcs = foldl spread d (filter (\<lambda>s. function_of s = function_of d) srcs)"

text \<open>
  The config declarations at their positions: the first one for a function (none of the
  names \<open>seen\<close> so far is its own) takes the source declarations for that function, and
  a later one for the same function stays as it is.
\<close>

fun merged_config ::
  "jsval set \<Rightarrow> EdgeFunctionDeclaration list \<Rightarrow> EdgeFunctionDeclaration list \<Rightarrow>
   EdgeFunctionDeclaration list" where
  "merged_config seen [] srcs = []"
| "merged_config seen (c # cs) srcs =
     (if function_of c \<in> seen then c else absorb c srcs)
     # merged_config (insert (function_of c) seen) cs srcs"

text \<open>
  What becomes of the config declaration at position \<open>i\<close>: a declaration with an
  earlier config declaration for the same function stays as it is, and the first one for
  a function takes the source declarations for that function.
\<close>

definition merged_at ::
  "EdgeFunctionDeclaration list \<Rightarrow> EdgeFunctionDeclaration list \<Rightarrow> nat \<Rightarrow> EdgeFunctionDeclaration" where
  "merged_at cfg srcs i =
     (if \<exists>j<i. function_of (cfg ! j) = function_of (cfg ! i) then cfg ! i
      else absorb (cfg ! i) srcs)"

text \<open>
  The merge in the words of the specification: after the config declarations, every
  source declaration whose function no config declaration names.
\<close>

definition mergeDeclarations_claimed ::
  "EdgeFunctionDeclaration list \<Rightarrow> EdgeFunctionDeclaration list \<Rightarrow> EdgeFunctionDeclaration list" where
  "mergeDeclarations_claimed cfg srcs =
     filter routable
       (merged_config {} cfg srcs
        @ filter (\<lambda>s. function_of s \<notin> function_of ` set cfg) srcs)"

text \<open>
  The same with its last part amended: of the source declarations whose function no
  config declaration names, the first for each function is appended, with the later ones
  for that function merged onto it.
\<close>

fun appended_sources ::
  "jsval set \<Rightarrow> EdgeFunctionDeclaration list \<Rightarrow> EdgeFunctionDeclaration list" where
  "appended_sources seen [] = []"
| "appended_sources seen (s # srcs) =
     (if function_of s \<in> seen then appended_sources seen srcs
      else absorb s srcs # appended_sources (insert (function_of s) seen) srcs)"

definition mergeDeclarations_amended ::
  "EdgeFunctionDeclaration list \<Rightarrow> EdgeFunctionDeclaration list \<Rightarrow> EdgeFunctionDeclaration list" where
  "mergeDeclarations_amended cfg srcs =
     filter routable
       (merged_config {} cfg srcs @ appended_sources (function_of ` set cfg) srcs)"

section \<open>Example collaborators and registries\<close>

text \<open>
  A platform for the examples: a file URL without a host becomes the path after
  \<open>file://\<close>, and the regular expressions are the anchored literals \<open>^text$\<close>.
  It stands for Node on the URLs and patterns of the examples, which have neither
  escapes nor metacharacters.
\<close>

definition example_platform :: platform where
  "example_platform =
     \<lparr> fileURLToPath =
         (\<lambda>url. if startsWith url ''file:///'' then Inr (drop 7 url)
                else Inl (Error ''ERR_INVALID_FILE_URL_HOST'')),
       RegExp =
         (\<lambda>src. if src \<noteq> [] \<and> hd src = CHR ''^'' \<and> last src = CHR ''$''
                then Inr (\<lambda>urlPath. src = ''^'' @ urlPath @ ''$'')
                else Inl (Error ''Invalid regular expression'')) \<rparr>"

text \<open>
  A bundler for the examples. It finds the functions \<open>found\<close>. Its manifest has a route
  \<open>^path$\<close> for every declaration with a \<open>path\<close> whose function is among the functions
  given, after the cache when the declaration says \<open>cache: 'manual'\<close>, and the exclusion
  patterns \<open>excluded\<close>.
\<close>

definition example_routes :: "bool \<Rightarrow> manifest_options \<Rightarrow> string route list" where
  "example_routes post opts =
     concat (map (\<lambda>d. case (d ''function'', d ''path'') of
                        (Some (Str n), Some (Str p)) \<Rightarrow>
                          if list_ex (\<lambda>ob. ob ''name'' = Some (Str n)) (opt_functions opts)
                             \<and> (d ''cache'' = Some (Str ''manual'')) = post
                          then [\<lparr>route_function = n, route_pattern = ''^'' @ p @ ''$''\<rparr>]
                          else []
                      | _ \<Rightarrow> [])
               (opt_declarations opts))"

definition example_bundler :: "EdgeFunction list \<Rightarrow> (string \<times> string list) list \<Rightarrow> bundler" where
  "example_bundler found excluded =
     \<lparr> bundler_find = (\<lambda>dirs. Inr found),
       generateManifest =
         (\<lambda>opts. Inr \<lparr> routes = example_routes False opts,
                        post_cache_routes = example_routes True opts,
                        function_config =
                          (\<lambda>n. map_option (\<lambda>ps. \<lparr>excluded_patterns = ps\<rparr>) (map_of excluded n)) \<rparr>) \<rparr>"

text \<open>An isolate for the examples, which answers \<open>r\<close> whatever it is asked to build.\<close>

definition example_runIsolate ::
  "error + isolate_result \<Rightarrow> EdgeFunction list \<Rightarrow> (string \<rightharpoonup> string) \<Rightarrow> error + isolate_result" where
  "example_runIsolate r fs vars = r"

text \<open>A registry with the config declarations \<open>cfg\<close> and the source declarations \<open>srcs\<close>.\<close>

definition declarations_registry ::
  "EdgeFunctionDeclaration list \<Rightarrow> EdgeFunctionDeclaration list \<Rightarrow> registry" where
  "declarations_registry cfg srcs =
     (new_registry (example_bundler [] []) \<lparr>edge_functions = Some cfg\<rparr> [] [] []
        (example_runIsolate (Inl (Error ''not run''))))
     \<lparr>declarationsFromSource := srcs\<rparr>"

text \<open>
  A registry with the functions \<open>fs\<close> known, the config declarations \<open>cfg\<close>, and an
  isolate that answers \<open>r\<close>.
\<close>

definition example_registry ::
  "EdgeFunction list \<Rightarrow> EdgeFunctionDeclaration list \<Rightarrow> error + isolate_result \<Rightarrow> registry" where
  "example_registry fs cfg r =
     (new_registry (example_bundler fs []) \<lparr>edge_functions = Some cfg\<rparr>
        [''/project/netlify/edge-functions''] [] [] (example_runIsolate r))
     \<lparr>functionList := fs\<rparr>"

text \<open>
  The graph of the fan-out example: \<open>a.ts\<close> and \<open>b.ts\<close> both import \<open>dep.ts\<close>, and
  \<open>a.ts\<close> imports a remote module and has a dependency without code.
\<close>

definition fanout_graph :: graph where
  "fanout_graph =
     \<lparr>modules =
        [\<lparr>specifier = ''file:///a.ts'',
          dependencies = Some [\<lparr>code = Some (Code (Str ''file:///dep.ts''))\<rparr>,
                               \<lparr>code = Some (Code (Str ''https://deno.land/x/mod.ts''))\<rparr>,
                               \<lparr>code = None\<rparr>]\<rparr>,
         \<lparr>specifier = ''https://deno.land/x/mod.ts'', dependencies = None\<rparr>,
         \<lparr>specifier = ''file:///b.ts'',
          dependencies = Some [\<lparr>code = Some (Code (Str ''file:///dep.ts''))\<rparr>]\<rparr>,
         \<lparr>specifier = ''file:///dep.ts'', dependencies = None\<rparr>]\<rparr>"

definition fanout_functions :: "EdgeFunction list" where
  "fanout_functions = [\<lparr>name = ''a'', path = ''/a.ts''\<rparr>, \<lparr>name = ''b'', path = ''/b.ts''\<rparr>]"

text \<open>
  A registry whose indexes and source declarations date from an earlier build, with an
  isolate that answers \<open>r\<close>.
\<close>

definition stale_registry :: "error + isolate_result \<Rightarrow> registry" where
  "stale_registry r =
     (example_registry fanout_functions [] r)
     \<lparr>declarationsFromSource := [[''function'' \<mapsto> Str ''a'', ''path'' \<mapsto> Str ''/old'']],
      dependencyPaths := [''/old.ts'' \<mapsto> [''a'']],
      functionPaths := [''/a.ts'' \<mapsto> ''a'']\<rparr>"

text \<open>A build that succeeds, with a configuration for the first function only.\<close>

definition fanout_result :: isolate_result where
  "fanout_result =
     \<lparr>functionsConfig = [[''path'' \<mapsto> Str ''/a'']], graph = Some fanout_graph, success = True\<rparr>"

text \<open>
  A registry that knows the functions \<open>previous\<close> while the bundler finds the functions
  \<open>found\<close>.
\<close>

definition scan_registry ::
  "EdgeFunction list \<Rightarrow> EdgeFunction list \<Rightarrow> EdgeFunctionDeclaration list \<Rightarrow> registry" where
  "scan_registry previous found cfg =
     (example_registry found cfg (Inr fanout_result))\<lparr>functionList := previous\<rparr>"

text \<open>A registry whose bundler has the exclusion patterns \<open>excluded\<close>.\<close>

definition routing_registry ::
  "EdgeFunction list \<Rightarrow> EdgeFunctionDeclaration list \<Rightarrow> (string \<times> string list) list \<Rightarrow> registry" where
  "routing_registry fs cfg excluded =
     (example_registry fs cfg (Inl (Error ''not run'')))\<lparr>bundler := example_bundler fs excluded\<rparr>"

section \<open>The dependency index, as the specification words it\<close>

text \<open>
  The graph has a module whose specifier is the file \<open>file\<close> and which has a dependency
  with a \<open>file:\<close> specifier for the path \<open>d\<close>.
\<close>

definition module_dependencies :: "graph_module \<Rightarrow> dependency list" where
  "module_dependencies m = (case dependencies m of None \<Rightarrow> [] | Some ds \<Rightarrow> ds)"

definition file_dependency :: "platform \<Rightarrow> dependency \<Rightarrow> string \<Rightarrow> bool" where
  "file_dependency P dep d =
     (case code dep of
        Some (Code (Str url)) \<Rightarrow> startsWith url ''file://'' \<and> fileURLToPath P url = Inr d
      | _ \<Rightarrow> False)"

definition depends_on :: "platform \<Rightarrow> graph \<Rightarrow> string \<Rightarrow> string \<Rightarrow> bool" where
  "depends_on P g file d =
     list_ex (\<lambda>m. startsWith (specifier m) ''file://'' \<and>
                  fileURLToPath P (specifier m) = Inr file \<and>
                  list_ex (\<lambda>dep. file_dependency P dep d) (module_dependencies m))
       (modules g)"

text \<open>The function names recorded for a path: none when the path is not a key.\<close>

definition names_at :: "(string \<rightharpoonup> string list) \<Rightarrow> string \<Rightarrow> string set" where
  "names_at deps d = (case deps d of None \<Rightarrow> {} | Some ns \<Rightarrow> set ns)"

section \<open>Rebuilds and matches, as the specification words them\<close>

text \<open>The rebuilds among some effects: the function lists given to \<open>runIsolate\<close>, in order.\<close>

definition rebuilds :: "effect list \<Rightarrow> EdgeFunction list list" where
  "rebuilds es = concat (map (\<lambda>e. case e of RunIsolate fs \<Rightarrow> [fs] | _ \<Rightarrow> []) es)"

text \<open>A pattern, given by its source, matches a path.\<close>

definition pattern_matches :: "platform \<Rightarrow> string \<Rightarrow> string \<Rightarrow> bool" where
  "pattern_matches P src urlPath = (case RegExp P src of Inl e \<Rightarrow> False | Inr re \<Rightarrow> re urlPath)"

text \<open>The path matches one of the exclusion patterns that the manifest has for a function.\<close>

definition excluded_for :: "platform \<Rightarrow> manifest \<Rightarrow> string \<Rightarrow> string \<Rightarrow> bool" where
  "excluded_for P m urlPath n =
     (case function_config m n of
        None \<Rightarrow> False
      | Some fc \<Rightarrow> list_ex (\<lambda>src. pattern_matches P src urlPath) (excluded_patterns fc))"

section \<open>Properties of the merge\<close>


lemma function_of_spread:
  "function_of s = function_of d \<Longrightarrow> function_of (spread d s) = function_of d"
  by (auto simp: function_of_def get_prop_def spread_def map_add_def split: option.splits)

lemma function_of_foldl_spread:
  "\<forall>s \<in> set ss. function_of s = function_of d \<Longrightarrow> function_of (foldl spread d ss) = function_of d"
  by (induction ss arbitrary: d) (simp_all add: function_of_spread)

lemma function_of_absorb: "function_of (absorb d srcs) = function_of d"
  unfolding absorb_def by (rule function_of_foldl_spread) simp

lemma absorb_Nil: "absorb d [] = d"
  by (simp add: absorb_def)

lemma absorb_Cons_same:
  "function_of s = function_of d \<Longrightarrow> absorb d (s # srcs) = absorb (spread d s) srcs"
  by (simp add: absorb_def function_of_spread)

lemma absorb_Cons_other:
  "function_of s \<noteq> function_of d \<Longrightarrow> absorb d (s # srcs) = absorb d srcs"
  by (simp add: absorb_def)

lemma map_function_of_merged_config:
  "map function_of (merged_config seen cfg srcs) = map function_of cfg"
  by (induction cfg arbitrary: seen) (simp_all add: function_of_absorb)

lemma length_merged_config: "length (merged_config seen cfg srcs) = length cfg"
  by (induction cfg arbitrary: seen) simp_all

lemma merged_config_Nil_sources: "merged_config seen cfg [] = cfg"
  by (induction cfg arbitrary: seen) (simp_all add: absorb_Nil)

lemma merged_config_skip:
  "function_of s \<in> seen \<or> function_of s \<notin> function_of ` set cfg \<Longrightarrow>
   merged_config seen cfg (s # srcs) = merged_config seen cfg srcs"
proof (induction cfg arbitrary: seen)
  case Nil
  then show ?case by simp
next
  case (Cons c cs)
  have tl: "merged_config (insert (function_of c) seen) cs (s # srcs)
            = merged_config (insert (function_of c) seen) cs srcs"
    using Cons.prems by (intro Cons.IH) auto
  have hd: "function_of c \<notin> seen \<Longrightarrow> absorb c (s # srcs) = absorb c srcs"
    using Cons.prems by (intro absorb_Cons_other) auto
  show ?case using tl hd by simp
qed

lemma findIndex_None: "findIndex p xs = None \<longleftrightarrow> (\<forall>x \<in> set xs. \<not> p x)"
  by (induction xs) auto

lemma findIndex_Some:
  "findIndex p xs = Some i \<Longrightarrow> i < length xs \<and> p (xs ! i) \<and> (\<forall>j < i. \<not> p (xs ! j))"
proof (induction xs arbitrary: i)
  case Nil
  then show ?case by simp
next
  case (Cons x xs)
  show ?case
  proof (cases "p x")
    case True
    with Cons.prems show ?thesis by simp
  next
    case False
    with Cons.prems obtain k where k: "findIndex p xs = Some k" "i = Suc k" by auto
    from Cons.IH[OF k(1)] False k(2) show ?thesis
      by (auto simp: less_Suc_eq_0_disj)
  qed
qed

lemma merged_config_update:
  "function_of s \<notin> seen \<Longrightarrow>
   findIndex (\<lambda>d. function_of d = function_of s) ds = Some i \<Longrightarrow>
   merged_config seen (ds[i := spread (ds ! i) s]) srcs = merged_config seen ds (s # srcs)"
proof (induction ds arbitrary: seen i)
  case Nil
  then show ?case by simp
next
  case (Cons c cs)
  show ?case
  proof (cases "function_of c = function_of s")
    case True
    with Cons.prems have i: "i = 0" by simp
    have fs: "function_of (spread c s) = function_of c"
      using True by (simp add: function_of_spread)
    have tl: "merged_config (insert (function_of c) seen) cs (s # srcs)
              = merged_config (insert (function_of c) seen) cs srcs"
      using True by (intro merged_config_skip) simp
    show ?thesis
      using Cons.prems True i fs tl by (simp add: absorb_Cons_same)
  next
    case False
    with Cons.prems obtain k where k: "findIndex (\<lambda>d. function_of d = function_of s) cs = Some k" "i = Suc k"
      by auto
    have notin: "function_of s \<notin> insert (function_of c) seen"
      using False Cons.prems(1) by auto
    show ?thesis
      using Cons.IH[OF notin k(1)] False k(2) by (simp add: absorb_Cons_other)
  qed
qed

lemma merged_config_append:
  "merged_config seen (ds @ es) srcs
   = merged_config seen ds srcs @ merged_config (seen \<union> function_of ` set ds) es srcs"
  by (induction ds arbitrary: seen) simp_all

lemma function_of_image_update:
  assumes "i < length ds" and "function_of d = function_of (ds ! i)"
  shows "function_of ` set (ds[i := d]) = function_of ` set ds"
proof -
  have "map function_of (ds[i := d]) = map function_of ds"
    using assms by (simp add: map_update list_update_same_conv)
  then have "set (map function_of (ds[i := d])) = set (map function_of ds)" by simp
  then show ?thesis by (simp only: set_map)
qed

lemma foldl_merge_declaration:
  "foldl merge_declaration ds srcs
   = merged_config {} ds srcs @ appended_sources (function_of ` set ds) srcs"
proof (induction srcs arbitrary: ds)
  case Nil
  then show ?case by (simp add: merged_config_Nil_sources)
next
  case (Cons s srcs)
  show ?case
  proof (cases "findIndex (\<lambda>d. function_of d = function_of s) ds")
    case None
    then have notin: "function_of s \<notin> function_of ` set ds"
      by (auto simp: findIndex_None)
    have step: "merge_declaration ds s = ds @ [s]"
      using None by (simp add: merge_declaration_def function_of_def)
    have skip: "merged_config {} ds (s # srcs) = merged_config {} ds srcs"
      using notin by (intro merged_config_skip) simp
    have "foldl merge_declaration ds (s # srcs) = foldl merge_declaration (ds @ [s]) srcs"
      by (simp add: step)
    also have "\<dots> = merged_config {} (ds @ [s]) srcs
                    @ appended_sources (function_of ` set (ds @ [s])) srcs"
      by (rule Cons.IH)
    also have "\<dots> = merged_config {} ds (s # srcs)
                    @ appended_sources (function_of ` set ds) (s # srcs)"
      using notin by (simp add: merged_config_append skip)
    finally show ?thesis .
  next
    case (Some i)
    from findIndex_Some[OF Some]
    have i: "i < length ds" and same: "function_of (ds ! i) = function_of s" by auto
    then have isin: "function_of s \<in> function_of ` set ds"
      by (metis imageI nth_mem)
    have step: "merge_declaration ds s = ds[i := spread (ds ! i) s]"
      using Some by (simp add: merge_declaration_def function_of_def)
    have img: "function_of ` set (ds[i := spread (ds ! i) s]) = function_of ` set ds"
      using i same by (intro function_of_image_update) (simp_all add: function_of_spread)
    have "foldl merge_declaration ds (s # srcs)
          = foldl merge_declaration (ds[i := spread (ds ! i) s]) srcs"
      by (simp add: step)
    also have "\<dots> = merged_config {} (ds[i := spread (ds ! i) s]) srcs
                    @ appended_sources (function_of ` set (ds[i := spread (ds ! i) s])) srcs"
      by (rule Cons.IH)
    also have "\<dots> = merged_config {} ds (s # srcs)
                    @ appended_sources (function_of ` set ds) (s # srcs)"
      using isin Some by (simp add: img merged_config_update)
    finally show ?thesis .
  qed
qed

lemma merged_config_nth:
  "i < length cfg \<Longrightarrow>
   merged_config seen cfg srcs ! i
   = (if function_of (cfg ! i) \<in> seen \<union> function_of ` set (take i cfg) then cfg ! i
      else absorb (cfg ! i) srcs)"
proof (induction cfg arbitrary: seen i)
  case Nil
  then show ?case by simp
next
  case (Cons c cs)
  show ?case
  proof (cases i)
    case 0
    then show ?thesis by simp
  next
    case (Suc k)
    with Cons.prems have "k < length cs" by simp
    from Cons.IH[OF this, of "insert (function_of c) seen"] Suc show ?thesis by simp
  qed
qed

lemma declarations_registry_simps:
  "declarationsFromConfig (declarations_registry cfg srcs) = cfg"
  "declarationsFromSource (declarations_registry cfg srcs) = srcs"
  by (simp_all add: declarations_registry_def new_registry_def getDeclarationsFromConfig_def)

lemma mergeDeclarations_closed:
  "mergeDeclarations st
   = filter routable
       (merged_config {} (declarationsFromConfig st) (declarationsFromSource st)
        @ appended_sources (function_of ` set (declarationsFromConfig st)) (declarationsFromSource st))"
  unfolding mergeDeclarations_def merged_declarations_def foldl_merge_declaration routable_def ..

text \<open>
  Claim C1, amended. \<open>mergeDeclarations\<close> returns the config declarations at their
  positions, the first one for each function with the fields of the source declarations
  for that function merged onto it (a source field over a config field, a later source
  declaration over an earlier one); then, of the source declarations whose function no
  config declaration names, the first for each function, with the later ones for that
  function merged onto it; without the declarations that have neither a \<open>path\<close> nor a
  \<open>pattern\<close>.
\<close>

theorem mergeDeclarations_is_amended:
  "mergeDeclarations st
   = mergeDeclarations_amended (declarationsFromConfig st) (declarationsFromSource st)"
  by (simp add: mergeDeclarations_closed mergeDeclarations_amended_def)

text \<open>
  The override of the specification: the source fields of \<open>f\<close> arrive on the config
  declaration of \<open>f\<close>, \<open>g\<close> is appended, and \<open>h\<close>, which cannot be routed, is dropped.
\<close>

theorem mergeDeclarations_is_amended_witness:
  "mergeDeclarations
     (declarations_registry
        [[''function'' \<mapsto> Str ''f'', ''path'' \<mapsto> Str ''/a'']]
        [[''function'' \<mapsto> Str ''f'', ''excluded_patterns'' \<mapsto> Ref 1],
         [''function'' \<mapsto> Str ''g'', ''path'' \<mapsto> Str ''/g''],
         [''function'' \<mapsto> Str ''h'', ''cache'' \<mapsto> Str ''manual'']])
   = [[''function'' \<mapsto> Str ''f'', ''path'' \<mapsto> Str ''/a'', ''excluded_patterns'' \<mapsto> Ref 1],
      [''function'' \<mapsto> Str ''g'', ''path'' \<mapsto> Str ''/g'']]"
  using mergeDeclarations_is_amended
    [of "declarations_registry
        [[''function'' \<mapsto> Str ''f'', ''path'' \<mapsto> Str ''/a'']]
        [[''function'' \<mapsto> Str ''f'', ''excluded_patterns'' \<mapsto> Ref 1],
         [''function'' \<mapsto> Str ''g'', ''path'' \<mapsto> Str ''/g''],
         [''function'' \<mapsto> Str ''h'', ''cache'' \<mapsto> Str ''manual'']]"]
  by (simp add: declarations_registry_simps mergeDeclarations_amended_def absorb_def
      function_of_def get_prop_def routable_def has_prop_def spread_def fun_eq_iff)

text \<open>
  Claim C1 as it stands fails when two source declarations name a function that no config
  declaration names: the second is merged onto the first, not appended.
\<close>

theorem mergeDeclarations_claimed_counterexample:
  "mergeDeclarations
     (declarations_registry []
        [[''function'' \<mapsto> Str ''f'', ''path'' \<mapsto> Str ''/a''],
         [''function'' \<mapsto> Str ''f'', ''pattern'' \<mapsto> Ref 1]])
   \<noteq> mergeDeclarations_claimed []
        [[''function'' \<mapsto> Str ''f'', ''path'' \<mapsto> Str ''/a''],
         [''function'' \<mapsto> Str ''f'', ''pattern'' \<mapsto> Ref 1]]"
proof -
  have code: "length (mergeDeclarations
     (declarations_registry []
        [[''function'' \<mapsto> Str ''f'', ''path'' \<mapsto> Str ''/a''],
         [''function'' \<mapsto> Str ''f'', ''pattern'' \<mapsto> Ref 1]])) = 1"
    by (simp add: mergeDeclarations_def merged_declarations_def declarations_registry_simps
        merge_declaration_def get_prop_def has_prop_def spread_def)
  have claim: "length (mergeDeclarations_claimed []
        [[''function'' \<mapsto> Str ''f'', ''path'' \<mapsto> Str ''/a''],
         [''function'' \<mapsto> Str ''f'', ''pattern'' \<mapsto> Ref 1]]) = 2"
    by (simp add: mergeDeclarations_claimed_def routable_def has_prop_def)
  show ?thesis using code claim by (metis numeral_eq_one_iff semiring_norm(85))
qed

text \<open>
  Claim C9. With no source declarations, \<open>mergeDeclarations\<close> returns the config
  declarations unchanged and in their order. A config declaration is an
  \<open>EdgeFunctionDeclaration\<close>: it has a \<open>path\<close> or a \<open>pattern\<close>.
\<close>

theorem mergeDeclarations_empty_source:
  assumes "declarationsFromSource st = []"
    and "\<forall>d \<in> set (declarationsFromConfig st). has_prop ''path'' d \<or> has_prop ''pattern'' d"
  shows "mergeDeclarations st = declarationsFromConfig st"
  using assms by (simp add: mergeDeclarations_def merged_declarations_def)

text \<open>Three config declarations, two of them for the same function, come back as they are.\<close>

theorem mergeDeclarations_empty_source_witness:
  "mergeDeclarations
     (declarations_registry
        [[''function'' \<mapsto> Str ''f'', ''path'' \<mapsto> Str ''/a''],
         [''function'' \<mapsto> Str ''g'', ''pattern'' \<mapsto> Ref 7],
         [''function'' \<mapsto> Str ''f'', ''path'' \<mapsto> Str ''/b'']] [])
   = [[''function'' \<mapsto> Str ''f'', ''path'' \<mapsto> Str ''/a''],
      [''function'' \<mapsto> Str ''g'', ''pattern'' \<mapsto> Ref 7],
      [''function'' \<mapsto> Str ''f'', ''path'' \<mapsto> Str ''/b'']]"
  using mergeDeclarations_empty_source
    [of "declarations_registry
        [[''function'' \<mapsto> Str ''f'', ''path'' \<mapsto> Str ''/a''],
         [''function'' \<mapsto> Str ''g'', ''pattern'' \<mapsto> Ref 7],
         [''function'' \<mapsto> Str ''f'', ''path'' \<mapsto> Str ''/b'']] []"]
  by (simp add: declarations_registry_simps has_prop_def)

lemma merged_declarations_closed:
  "merged_declarations st
   = merged_config {} (declarationsFromConfig st) (declarationsFromSource st)
     @ appended_sources (function_of ` set (declarationsFromConfig st)) (declarationsFromSource st)"
  by (simp add: merged_declarations_def foldl_merge_declaration)

lemma function_of_in_take:
  assumes "i \<le> length cfg"
  shows "(x \<in> function_of ` set (take i cfg)) = (\<exists>j<i. function_of (cfg ! j) = x)"
proof
  assume "x \<in> function_of ` set (take i cfg)"
  then obtain d where d: "d \<in> set (take i cfg)" "x = function_of d" by auto
  then obtain j where j: "j < length (take i cfg)" "take i cfg ! j = d"
    by (auto simp: in_set_conv_nth)
  with d show "\<exists>j<i. function_of (cfg ! j) = x" by auto
next
  note a = assms
  assume "\<exists>j<i. function_of (cfg ! j) = x"
  then obtain j where j: "j < i" "function_of (cfg ! j) = x" by auto
  with a have "take i cfg ! j \<in> set (take i cfg)" by (intro nth_mem) simp
  with j show "x \<in> function_of ` set (take i cfg)" by force
qed

lemma merged_declarations_nth:
  assumes "i < length (declarationsFromConfig st)"
  shows "merged_declarations st ! i
         = (if \<exists>j<i. function_of (declarationsFromConfig st ! j)
                        = function_of (declarationsFromConfig st ! i)
            then declarationsFromConfig st ! i
            else absorb (declarationsFromConfig st ! i) (declarationsFromSource st))"
  using assms
  by (simp add: merged_declarations_closed nth_append length_merged_config merged_config_nth
      function_of_in_take)

lemma length_merged_declarations:
  "length (declarationsFromConfig st) \<le> length (merged_declarations st)"
  by (simp add: merged_declarations_closed length_merged_config)

lemma merged_config_map:
  "merged_config {} cfg srcs = map (merged_at cfg srcs) [0..<length cfg]"
  by (rule nth_equalityI)
    (simp_all add: length_merged_config merged_config_nth function_of_in_take merged_at_def)

lemma mergeDeclarations_config_part:
  "mergeDeclarations st
   = filter routable
       (map (merged_at (declarationsFromConfig st) (declarationsFromSource st))
          [0..<length (declarationsFromConfig st)])
     @ filter routable
         (appended_sources (function_of ` set (declarationsFromConfig st))
            (declarationsFromSource st))"
  by (simp add: mergeDeclarations_closed merged_config_map)

text \<open>
  Claim C10. In the output of \<open>mergeDeclarations\<close>: the first config declaration for a
  function is there with the source declarations for that function merged onto it
  (when the result has a \<open>path\<close> or a \<open>pattern\<close>); a config declaration with an
  earlier one for the same function is there as it went in (when it has a \<open>path\<close> or a
  \<open>pattern\<close>); and the output begins with exactly these declarations, in the order of
  the config, so that no source declaration is merged onto a later duplicate.
\<close>

theorem duplicate_config_declarations:
  assumes "i < length (declarationsFromConfig st)"
  shows "((\<forall>j<i. function_of (declarationsFromConfig st ! j)
                  \<noteq> function_of (declarationsFromConfig st ! i))
          \<and> (has_prop ''path'' (absorb (declarationsFromConfig st ! i) (declarationsFromSource st))
               \<or> has_prop ''pattern'' (absorb (declarationsFromConfig st ! i) (declarationsFromSource st)))
          \<longrightarrow> absorb (declarationsFromConfig st ! i) (declarationsFromSource st)
                \<in> set (mergeDeclarations st))
       \<and> ((\<exists>j<i. function_of (declarationsFromConfig st ! j)
                   = function_of (declarationsFromConfig st ! i))
            \<and> (has_prop ''path'' (declarationsFromConfig st ! i)
                 \<or> has_prop ''pattern'' (declarationsFromConfig st ! i))
          \<longrightarrow> declarationsFromConfig st ! i \<in> set (mergeDeclarations st))
       \<and> take (length (filter routable
                  (map (merged_at (declarationsFromConfig st) (declarationsFromSource st))
                     [0..<length (declarationsFromConfig st)])))
            (mergeDeclarations st)
         = filter routable
             (map (merged_at (declarationsFromConfig st) (declarationsFromSource st))
                [0..<length (declarationsFromConfig st)])"
proof -
  let ?cfg = "declarationsFromConfig st" and ?srcs = "declarationsFromSource st"
  let ?M = "map (merged_at ?cfg ?srcs) [0..<length ?cfg]"
  have out: "mergeDeclarations st
             = filter routable ?M
               @ filter routable (appended_sources (function_of ` set ?cfg) ?srcs)"
    by (rule mergeDeclarations_config_part)
  have mem: "merged_at ?cfg ?srcs i \<in> set (mergeDeclarations st)"
    if "routable (merged_at ?cfg ?srcs i)"
  proof -
    have "merged_at ?cfg ?srcs i \<in> set ?M" using assms by simp
    with that show ?thesis unfolding out by simp
  qed
  have first: "absorb (?cfg ! i) ?srcs \<in> set (mergeDeclarations st)"
    if f: "\<forall>j<i. function_of (?cfg ! j) \<noteq> function_of (?cfg ! i)"
      and r: "has_prop ''path'' (absorb (?cfg ! i) ?srcs) \<or> has_prop ''pattern'' (absorb (?cfg ! i) ?srcs)"
  proof -
    from f have "\<not> (\<exists>j<i. function_of (?cfg ! j) = function_of (?cfg ! i))" by blast
    then have eq: "merged_at ?cfg ?srcs i = absorb (?cfg ! i) ?srcs"
      by (simp only: merged_at_def if_False)
    from r have "routable (merged_at ?cfg ?srcs i)" by (simp only: eq routable_def)
    from mem[OF this] show ?thesis by (simp only: eq)
  qed
  have later: "?cfg ! i \<in> set (mergeDeclarations st)"
    if d: "\<exists>j<i. function_of (?cfg ! j) = function_of (?cfg ! i)"
      and r: "has_prop ''path'' (?cfg ! i) \<or> has_prop ''pattern'' (?cfg ! i)"
  proof -
    from d have eq: "merged_at ?cfg ?srcs i = ?cfg ! i"
      by (simp only: merged_at_def if_True)
    from r have "routable (merged_at ?cfg ?srcs i)" by (simp only: eq routable_def)
    from mem[OF this] show ?thesis by (simp only: eq)
  qed
  have pre: "take (length (filter routable ?M)) (mergeDeclarations st) = filter routable ?M"
    unfolding out by simp
  from first later pre show ?thesis by blast
qed

text \<open>
  Of two config declarations for \<open>f\<close>, the output has the first with the \<open>cache\<close> of
  the source declaration for \<open>f\<close>, then the second untouched.
\<close>

theorem duplicate_config_declarations_witness:
  "[''function'' \<mapsto> Str ''f'', ''path'' \<mapsto> Str ''/a'', ''cache'' \<mapsto> Str ''manual'']
     \<in> set (mergeDeclarations
         (declarations_registry
            [[''function'' \<mapsto> Str ''f'', ''path'' \<mapsto> Str ''/a''],
             [''function'' \<mapsto> Str ''f'', ''path'' \<mapsto> Str ''/b'']]
            [[''function'' \<mapsto> Str ''f'', ''cache'' \<mapsto> Str ''manual'']]))
   \<and> [''function'' \<mapsto> Str ''f'', ''path'' \<mapsto> Str ''/b'']
     \<in> set (mergeDeclarations
         (declarations_registry
            [[''function'' \<mapsto> Str ''f'', ''path'' \<mapsto> Str ''/a''],
             [''function'' \<mapsto> Str ''f'', ''path'' \<mapsto> Str ''/b'']]
            [[''function'' \<mapsto> Str ''f'', ''cache'' \<mapsto> Str ''manual'']]))
   \<and> take 2 (mergeDeclarations
         (declarations_registry
            [[''function'' \<mapsto> Str ''f'', ''path'' \<mapsto> Str ''/a''],
             [''function'' \<mapsto> Str ''f'', ''path'' \<mapsto> Str ''/b'']]
            [[''function'' \<mapsto> Str ''f'', ''cache'' \<mapsto> Str ''manual'']]))
     = [[''function'' \<mapsto> Str ''f'', ''path'' \<mapsto> Str ''/a'', ''cache'' \<mapsto> Str ''manual''],
        [''function'' \<mapsto> Str ''f'', ''path'' \<mapsto> Str ''/b'']]"
proof -
  let ?c0 = "[''function'' \<mapsto> Str ''f'', ''path'' \<mapsto> Str ''/a'']"
  let ?c1 = "[''function'' \<mapsto> Str ''f'', ''path'' \<mapsto> Str ''/b'']"
  let ?s = "[''function'' \<mapsto> Str ''f'', ''cache'' \<mapsto> Str ''manual'']"
  let ?m = "[''function'' \<mapsto> Str ''f'', ''path'' \<mapsto> Str ''/a'', ''cache'' \<mapsto> Str ''manual'']"
  let ?R = "declarations_registry [?c0, ?c1] [?s]"
  have ab: "absorb ?c0 [?s] = ?m"
    by (simp add: absorb_def function_of_def get_prop_def spread_def fun_eq_iff)
  have first: "?m \<in> set (mergeDeclarations ?R)"
    using duplicate_config_declarations[of 0 ?R, THEN conjunct1]
    by (simp add: declarations_registry_simps ab has_prop_def)
  have later: "?c1 \<in> set (mergeDeclarations ?R)"
    using duplicate_config_declarations[of 1 ?R, THEN conjunct2, THEN conjunct1]
    by (simp add: declarations_registry_simps function_of_def get_prop_def has_prop_def)
  have m0: "merged_at [?c0, ?c1] [?s] 0 = ?m"
    by (simp add: merged_at_def ab)
  have m1: "merged_at [?c0, ?c1] [?s] 1 = ?c1"
    by (simp add: merged_at_def function_of_def get_prop_def)
  have r: "routable ?m" "routable ?c1"
    by (simp_all add: routable_def has_prop_def)
  have upt: "[0..<length [?c0, ?c1]] = [0, 1]"
    by (simp add: upt_rec)
  have M: "map (merged_at [?c0, ?c1] [?s]) [0..<length [?c0, ?c1]] = [?m, ?c1]"
    unfolding upt by (simp only: list.map m0 m1)
  have F: "filter routable [?m, ?c1] = [?m, ?c1]"
    using r by simp
  note t = duplicate_config_declarations[of 0 ?R, THEN conjunct2, THEN conjunct2,
      unfolded declarations_registry_simps M F]
  have pre: "take 2 (mergeDeclarations ?R) = [?m, ?c1]"
    using t by (simp add: numeral_2_eq_2)
  from first later pre show ?thesis by blast
qed

section \<open>Properties of the environment\<close>

lemma fold_env_distinct:
  "distinct (map fst es) \<Longrightarrow>
   fold (\<lambda>(key, variable) env. if ok variable then env(key \<mapsto> val variable) else env) es m k
   = (case map_of es k of
        None \<Rightarrow> m k
      | Some v \<Rightarrow> if ok v then Some (val v) else m k)"
proof (induction es arbitrary: m)
  case Nil
  then show ?case by simp
next
  case (Cons e es)
  obtain k0 v0 where e: "e = (k0, v0)" by (cases e)
  from Cons.prems e have d: "distinct (map fst es)" and notin: "k0 \<notin> fst ` set es" by auto
  from notin have none: "map_of es k0 = None" by (simp add: map_of_eq_None_iff)
  show ?case
    using Cons.IH[OF d] e none by (auto split: option.splits)
qed

text \<open>
  Claim C8. The environment derived from the entries of a configuration object (whose
  keys are distinct) holds a variable, with its value, exactly when its sources include
  \<open>ui\<close>, \<open>account\<close>, \<open>addons\<close> or \<open>internal\<close>; except that \<open>DENO_REGION\<close> is
  always there, with the value \<open>local\<close>.
\<close>

theorem getEnvironmentVariables_filter:
  assumes "distinct (map fst envConfig)"
  shows "getEnvironmentVariables envConfig key
         = (if key = ''DENO_REGION'' then Some ''local''
            else case map_of envConfig key of
                   None \<Rightarrow> None
                 | Some variable \<Rightarrow>
                     if ''ui'' \<in> set (var_sources variable) \<or>
                        ''account'' \<in> set (var_sources variable) \<or>
                        ''addons'' \<in> set (var_sources variable) \<or>
                        ''internal'' \<in> set (var_sources variable)
                     then Some (var_value variable) else None)"
  unfolding getEnvironmentVariables_def
  by (simp add: fold_env_distinct[OF assms] split: option.splits)

text \<open>
  A variable from another source is left out, one of the account is kept, and a
  \<open>DENO_REGION\<close> from the UI gives way to \<open>local\<close>.
\<close>

theorem getEnvironmentVariables_filter_witness:
  "getEnvironmentVariables
     [(''A'', \<lparr>var_value = ''1'', var_sources = [''other'']\<rparr>),
      (''B'', \<lparr>var_value = ''2'', var_sources = [''general'', ''account'']\<rparr>),
      (''DENO_REGION'', \<lparr>var_value = ''eu'', var_sources = [''ui'']\<rparr>)] ''A'' = None
   \<and> getEnvironmentVariables
     [(''A'', \<lparr>var_value = ''1'', var_sources = [''other'']\<rparr>),
      (''B'', \<lparr>var_value = ''2'', var_sources = [''general'', ''account'']\<rparr>),
      (''DENO_REGION'', \<lparr>var_value = ''eu'', var_sources = [''ui'']\<rparr>)] ''B'' = Some ''2''
   \<and> getEnvironmentVariables
     [(''A'', \<lparr>var_value = ''1'', var_sources = [''other'']\<rparr>),
      (''B'', \<lparr>var_value = ''2'', var_sources = [''general'', ''account'']\<rparr>),
      (''DENO_REGION'', \<lparr>var_value = ''eu'', var_sources = [''ui'']\<rparr>)] ''DENO_REGION'' = Some ''local''"
proof -
  let ?cfg = "[(''A'', \<lparr>var_value = ''1'', var_sources = [''other'']\<rparr>),
      (''B'', \<lparr>var_value = ''2'', var_sources = [''general'', ''account'']\<rparr>),
      (''DENO_REGION'', \<lparr>var_value = ''eu'', var_sources = [''ui'']\<rparr>)]"
  have d: "distinct (map fst ?cfg)" by simp
  show ?thesis
    using getEnvironmentVariables_filter[OF d, of "''A''"]
      getEnvironmentVariables_filter[OF d, of "''B''"]
      getEnvironmentVariables_filter[OF d, of "''DENO_REGION''"]
    by simp
qed

section \<open>Properties of the dependency index\<close>

lemma new_Map_fold:
  "fold (\<lambda>(k, v) m. m(k \<mapsto> v)) es m = m ++ map_of (rev es)"
proof (induction es arbitrary: m)
  case Nil
  then show ?case by simp
next
  case (Cons e es)
  obtain k v where e: "e = (k, v)" by (cases e)
  have "fold (\<lambda>(k, v) m. m(k \<mapsto> v)) (e # es) m
        = fold (\<lambda>(k, v) m. m(k \<mapsto> v)) es (m(k \<mapsto> v))"
    by (simp only: e fold_simps case_prod_conv)
  also have "\<dots> = m(k \<mapsto> v) ++ map_of (rev es)"
    by (rule Cons.IH)
  also have "\<dots> = m ++ map_of (rev (e # es))"
    by (auto simp: e fun_eq_iff map_add_def split: option.splits)
  finally show ?case .
qed

lemma new_Map_map_of: "new_Map es = map_of (rev es)"
  by (simp add: new_Map_def new_Map_fold)

lemma new_Map_paths:
  assumes "\<forall>f \<in> set fs. \<forall>g \<in> set fs. path f = path g \<longrightarrow> name f = name g"
  shows "new_Map (map (\<lambda>func. (path func, name func)) fs) p = Some n
         \<longleftrightarrow> (\<exists>f \<in> set fs. path f = p \<and> name f = n)"
proof
  assume "new_Map (map (\<lambda>func. (path func, name func)) fs) p = Some n"
  then have "(p, n) \<in> set (rev (map (\<lambda>func. (path func, name func)) fs))"
    unfolding new_Map_map_of by (rule map_of_SomeD)
  then show "\<exists>f \<in> set fs. path f = p \<and> name f = n" by auto
next
  assume "\<exists>f \<in> set fs. path f = p \<and> name f = n"
  then obtain f where f: "f \<in> set fs" "path f = p" "name f = n" by auto
  then have "p \<in> fst ` set (rev (map (\<lambda>func. (path func, name func)) fs))" by force
  then obtain n' where n': "map_of (rev (map (\<lambda>func. (path func, name func)) fs)) p = Some n'"
    by (metis map_of_eq_None_iff not_Some_eq)
  then have "(p, n') \<in> set (rev (map (\<lambda>func. (path func, name func)) fs))"
    by (rule map_of_SomeD)
  then obtain g where g: "g \<in> set fs" "path g = p" "name g = n'" by auto
  with f assms have "n' = n" by metis
  with n' show "new_Map (map (\<lambda>func. (path func, name func)) fs) p = Some n"
    by (simp add: new_Map_map_of)
qed

lemma dom_new_Map: "dom (new_Map es) = fst ` set es"
  by (simp add: new_Map_map_of dom_map_of_conv_image_fst)

lemma add_dependencies_names:
  "add_dependencies P fm ds deps = Inr deps' \<Longrightarrow>
   names_at deps' d
   = names_at deps d \<union> (if list_ex (\<lambda>dep. file_dependency P dep d) ds then {fm} else {})"
proof (induction ds arbitrary: deps)
  case Nil
  then show ?case by simp
next
  case (Cons x xs)
  show ?case
  proof (cases "code x")
    case None
    with Cons show ?thesis by (simp add: file_dependency_def)
  next
    case (Some c)
    obtain v where c: "c = Code v" by (cases c)
    show ?thesis
    proof (cases "\<exists>url. v = Str url \<and> startsWith url ''file://''")
      case False
      with Some c Cons.prems have "add_dependencies P fm xs deps = Inr deps'"
        by (auto split: jsval.splits if_splits)
      from Cons.IH[OF this] False Some c show ?thesis
        by (auto simp: file_dependency_def split: jsval.splits)
    next
      case True
      then obtain url where url: "v = Str url" "startsWith url ''file://''" by auto
      with Some c Cons.prems obtain dp where
        dp: "fileURLToPath P url = Inr dp"
        and rest: "add_dependencies P fm xs
                     (deps(dp \<mapsto> (case deps dp of None \<Rightarrow> [] | Some fs \<Rightarrow> fs) @ [fm])) = Inr deps'"
        by (auto split: sum.splits)
      have here: "file_dependency P x d \<longleftrightarrow> dp = d"
        using Some c url dp by (auto simp: file_dependency_def)
      from Cons.IH[OF rest] here show ?thesis
        by (auto simp: names_at_def split: option.splits if_splits)
    qed
  qed
qed

lemma process_modules_names:
  "process_modules P fp ms deps = Inr deps' \<Longrightarrow>
   names_at deps' d
   = names_at deps d \<union>
     {fm. fm \<noteq> [] \<and>
          (\<exists>m \<in> set ms. startsWith (specifier m) ''file://'' \<and>
             (\<exists>p. fileURLToPath P (specifier m) = Inr p \<and> fp p = Some fm) \<and>
             list_ex (\<lambda>dep. file_dependency P dep d) (module_dependencies m))}"
proof (induction ms arbitrary: deps)
  case Nil
  then show ?case by simp
next
  case (Cons m ms)
  let ?S = "\<lambda>ms. {fm. fm \<noteq> [] \<and>
          (\<exists>m \<in> set ms. startsWith (specifier m) ''file://'' \<and>
             (\<exists>p. fileURLToPath P (specifier m) = Inr p \<and> fp p = Some fm) \<and>
             list_ex (\<lambda>dep. file_dependency P dep d) (module_dependencies m))}"
  show ?case
  proof (cases "startsWith (specifier m) ''file://''")
    case False
    with Cons.prems have "process_modules P fp ms deps = Inr deps'" by simp
    from Cons.IH[OF this] False show ?thesis by auto
  next
    case True
    with Cons.prems obtain p where p: "fileURLToPath P (specifier m) = Inr p"
      by (auto split: sum.splits)
    show ?thesis
    proof (cases "\<exists>fm. fp p = Some fm \<and> fm \<noteq> []")
      case False
      with Cons.prems True p have "process_modules P fp ms deps = Inr deps'"
        by (auto split: option.splits if_splits)
      from Cons.IH[OF this] False True p show ?thesis by auto
    next
      case yes: True
      then obtain fm where fm: "fp p = Some fm" "fm \<noteq> []" by auto
      with Cons.prems True p obtain deps1 where
        d1: "add_dependencies P fm (module_dependencies m) deps = Inr deps1"
        and rest: "process_modules P fp ms deps1 = Inr deps'"
        by (auto simp: module_dependencies_def split: sum.splits)
      have a: "names_at deps1 d = names_at deps d \<union>
                 (if list_ex (\<lambda>dep. file_dependency P dep d) (module_dependencies m) then {fm} else {})"
        by (rule add_dependencies_names[OF d1])
      have b: "names_at deps' d = names_at deps1 d \<union> ?S ms"
        by (rule Cons.IH[OF rest])
      have c: "?S (m # ms)
               = (if list_ex (\<lambda>dep. file_dependency P dep d) (module_dependencies m) then {fm} else {})
                 \<union> ?S ms"
        using True p fm by auto
      show ?thesis unfolding a b c by (simp add: Un_assoc)
    qed
  qed
qed

lemma add_dependencies_returns:
  "\<forall>url. startsWith url ''file://'' \<longrightarrow> (\<exists>p. fileURLToPath P url = Inr p) \<Longrightarrow>
   \<exists>deps'. add_dependencies P fm ds deps = Inr deps'"
proof (induction ds arbitrary: deps)
  case Nil
  then show ?case by simp
next
  case (Cons x xs)
  show ?case
  proof (cases "code x")
    case None
    with Cons show ?thesis by simp
  next
    case (Some c)
    obtain v where c: "c = Code v" by (cases c)
    show ?thesis
    proof (cases "\<exists>url. v = Str url \<and> startsWith url ''file://''")
      case False
      with Some c Cons.IH[OF Cons.prems, of deps] show ?thesis
        by (auto split: jsval.splits)
    next
      case True
      then obtain url where url: "v = Str url" "startsWith url ''file://''" by auto
      with Cons.prems obtain dp where dp: "fileURLToPath P url = Inr dp" by blast
      from Cons.IH[OF Cons.prems] Some c url dp show ?thesis by simp
    qed
  qed
qed

lemma process_modules_returns:
  "\<forall>url. startsWith url ''file://'' \<longrightarrow> (\<exists>p. fileURLToPath P url = Inr p) \<Longrightarrow>
   \<exists>deps'. process_modules P fp ms deps = Inr deps'"
proof (induction ms arbitrary: deps)
  case Nil
  then show ?case by simp
next
  case (Cons m ms)
  show ?case
  proof (cases "startsWith (specifier m) ''file://''")
    case False
    with Cons.IH[OF Cons.prems] show ?thesis by simp
  next
    case True
    with Cons.prems obtain p where p: "fileURLToPath P (specifier m) = Inr p" by blast
    show ?thesis
    proof (cases "fp p")
      case None
      with True p Cons.IH[OF Cons.prems] show ?thesis by simp
    next
      case (Some fm)
      obtain deps1 where "add_dependencies P fm
          (case dependencies m of None \<Rightarrow> [] | Some ds \<Rightarrow> ds) deps = Inr deps1"
        using add_dependencies_returns[OF Cons.prems] by blast
      with True p Some Cons.IH[OF Cons.prems] show ?thesis by simp
    qed
  qed
qed

lemma processGraph_returns:
  assumes "\<forall>url. startsWith url ''file://'' \<longrightarrow> (\<exists>p. fileURLToPath P url = Inr p)"
  shows "fst (processGraph P gr st) = Inr ()"
proof (cases gr)
  case None
  then show ?thesis by (simp add: processGraph_def)
next
  case (Some g)
  obtain deps where "process_modules P
      (new_Map (map (\<lambda>func. (path func, name func)) (functionList st))) (modules g) Map.empty
      = Inr deps"
    using process_modules_returns[OF assms] by blast
  with Some show ?thesis by (simp add: processGraph_def)
qed

text \<open>
  Claim C5. Without a graph, \<open>processGraph\<close> leaves the registry as it is, but for a
  warning. With a graph, when it returns, \<open>functionPaths\<close> maps the path of every current
  function to its name and has no other key, and the names that \<open>dependencyPaths\<close> gives
  for a path \<open>d\<close> are those of the functions whose own file is the specifier of a module
  of the graph with a \<open>file:\<close> dependency on \<open>d\<close>; dependencies of any other kind
  count for nothing. Functions have a name, and one file has one name.
\<close>

theorem processGraph_indexes:
  "processGraph P None st = (Inr (), st\<lparr>effects := effects st @ [Warn graph_warning]\<rparr>)
   \<and> ((\<forall>f \<in> set (functionList st). name f \<noteq> [])
        \<and> (\<forall>f \<in> set (functionList st). \<forall>g \<in> set (functionList st).
               path f = path g \<longrightarrow> name f = name g)
        \<and> processGraph P (Some g) st = (Inr (), st')
      \<longrightarrow> (\<forall>f \<in> set (functionList st). functionPaths st' (path f) = Some (name f))
          \<and> dom (functionPaths st') = path ` set (functionList st)
          \<and> (\<forall>d. names_at (dependencyPaths st') d
                   = set (map name (filter (\<lambda>f. depends_on P g (path f) d) (functionList st)))))"
proof (intro conjI impI)
  show "processGraph P None st = (Inr (), st\<lparr>effects := effects st @ [Warn graph_warning]\<rparr>)"
    by (simp add: processGraph_def)
next
  assume a: "(\<forall>f \<in> set (functionList st). name f \<noteq> [])
        \<and> (\<forall>f \<in> set (functionList st). \<forall>g \<in> set (functionList st).
               path f = path g \<longrightarrow> name f = name g)
        \<and> processGraph P (Some g) st = (Inr (), st')"
  let ?fs = "functionList st"
  let ?fp = "new_Map (map (\<lambda>func. (path func, name func)) ?fs)"
  from a have names: "\<forall>f \<in> set ?fs. name f \<noteq> []" by (rule conjunct1)
  from a have files: "\<forall>f \<in> set ?fs. \<forall>g \<in> set ?fs. path f = path g \<longrightarrow> name f = name g"
    by (elim conjE)
  from a have run: "processGraph P (Some g) st = (Inr (), st')" by (elim conjE)
  obtain deps where
    deps: "process_modules P ?fp (modules g) Map.empty = Inr deps"
    and st': "st' = st\<lparr>dependencyPaths := deps, functionPaths := ?fp\<rparr>"
  proof (cases "process_modules P ?fp (modules g) Map.empty")
    case (Inl e)
    with run show ?thesis by (simp add: processGraph_def)
  next
    case (Inr deps)
    with run have "st' = st\<lparr>dependencyPaths := deps, functionPaths := ?fp\<rparr>"
      by (simp add: processGraph_def)
    with Inr that show ?thesis by blast
  qed
  have fpaths: "functionPaths st' = ?fp" and dpaths: "dependencyPaths st' = deps"
    by (simp_all add: st')
  have fp: "?fp p = Some n \<longleftrightarrow> (\<exists>f \<in> set ?fs. path f = p \<and> name f = n)" for p n
    by (rule new_Map_paths[OF files])
  show "\<forall>f \<in> set ?fs. functionPaths st' (path f) = Some (name f)"
    unfolding fpaths fp by blast
  show "dom (functionPaths st') = path ` set ?fs"
    unfolding fpaths by (simp add: dom_new_Map image_image)
  show "\<forall>d. names_at (dependencyPaths st') d
             = set (map name (filter (\<lambda>f. depends_on P g (path f) d) ?fs))"
  proof
    fix d
    have "names_at deps d
          = {fm. fm \<noteq> [] \<and>
               (\<exists>m \<in> set (modules g). startsWith (specifier m) ''file://'' \<and>
                  (\<exists>p. fileURLToPath P (specifier m) = Inr p \<and> ?fp p = Some fm) \<and>
                  list_ex (\<lambda>dep. file_dependency P dep d) (module_dependencies m))}"
      using process_modules_names[OF deps, of d] by (simp add: names_at_def)
    also have "\<dots> = name ` {f \<in> set ?fs. depends_on P g (path f) d}"
      (is "?L = ?R")
    proof (intro set_eqI iffI)
      fix n assume "n \<in> ?L"
      then obtain m p where m: "m \<in> set (modules g)" "startsWith (specifier m) ''file://''"
        "fileURLToPath P (specifier m) = Inr p" "?fp p = Some n"
        "list_ex (\<lambda>dep. file_dependency P dep d) (module_dependencies m)" by auto
      from m(4) obtain f where f: "f \<in> set ?fs" "path f = p" "name f = n"
        unfolding fp by auto
      have "depends_on P g (path f) d"
        using m f unfolding depends_on_def list_ex_iff by blast
      with f show "n \<in> ?R" by auto
    next
      fix n assume "n \<in> ?R"
      then obtain f where f: "f \<in> set ?fs" "name f = n" "depends_on P g (path f) d" by auto
      from f(3) obtain m where m: "m \<in> set (modules g)" "startsWith (specifier m) ''file://''"
        "fileURLToPath P (specifier m) = Inr (path f)"
        "list_ex (\<lambda>dep. file_dependency P dep d) (module_dependencies m)"
        unfolding depends_on_def list_ex_iff by auto
      have "?fp (path f) = Some n" unfolding fp using f by auto
      moreover have "n \<noteq> []" using names f by auto
      ultimately show "n \<in> ?L" using m by auto
    qed
    finally show "names_at (dependencyPaths st') d
             = set (map name (filter (\<lambda>f. depends_on P g (path f) d) ?fs))"
      by (simp add: dpaths)
  qed
qed

lemma example_platform_simps:
  "fileURLToPath example_platform url
   = (if startsWith url ''file:///'' then Inr (drop 7 url) else Inl (Error ''ERR_INVALID_FILE_URL_HOST''))"
  "RegExp example_platform src
   = (if src \<noteq> [] \<and> hd src = CHR ''^'' \<and> last src = CHR ''$''
      then Inr (\<lambda>urlPath. src = ''^'' @ urlPath @ ''$'')
      else Inl (Error ''Invalid regular expression''))"
  by (simp_all add: example_platform_def)

lemma example_registry_simps:
  "functionList (example_registry fs cfg r) = fs"
  "declarationsFromConfig (example_registry fs cfg r) = cfg"
  "declarationsFromSource (example_registry fs cfg r) = []"
  "buildError (example_registry fs cfg r) = None"
  "effects (example_registry fs cfg r) = []"
  "functionPaths (example_registry fs cfg r) = Map.empty"
  "dependencyPaths (example_registry fs cfg r) = Map.empty"
  "runIsolate (example_registry fs cfg r) = example_runIsolate r"
  "bundler (example_registry fs cfg r) = example_bundler fs []"
  by (simp_all add: example_registry_def new_registry_def getDeclarationsFromConfig_def)

lemma processGraph_fanout:
  "functionList st = fanout_functions \<Longrightarrow>
   processGraph example_platform (Some fanout_graph) st
   = (Inr (), st\<lparr>dependencyPaths := [''/dep.ts'' \<mapsto> [''a'', ''b'']],
                  functionPaths := [''/a.ts'' \<mapsto> ''a'', ''/b.ts'' \<mapsto> ''b'']\<rparr>)"
  by (simp add: processGraph_def fanout_graph_def fanout_functions_def
      example_platform_simps new_Map_def startsWith_def)

text \<open>
  The fan-out: \<open>dep.ts\<close>, imported by the files of \<open>a\<close> and of \<open>b\<close>, is indexed under
  both names, the remote import of \<open>a.ts\<close> under none; and without a graph an older
  index stays.
\<close>

theorem processGraph_indexes_witness:
  "names_at (dependencyPaths (snd (processGraph example_platform (Some fanout_graph)
       (example_registry fanout_functions [] (Inl (Error ''unused''))))))
     ''/dep.ts'' = {''a'', ''b''}
   \<and> functionPaths (snd (processGraph example_platform (Some fanout_graph)
       (example_registry fanout_functions [] (Inl (Error ''unused'')))))
     ''/b.ts'' = Some ''b''
   \<and> dependencyPaths (snd (processGraph example_platform None
       ((example_registry fanout_functions [] (Inl (Error ''unused'')))
          \<lparr>dependencyPaths := [''/old.ts'' \<mapsto> [''a'']]\<rparr>)))
     = [''/old.ts'' \<mapsto> [''a'']]"
proof -
  let ?R = "example_registry fanout_functions [] (Inl (Error ''unused''))"
  let ?R' = "?R\<lparr>dependencyPaths := [''/dep.ts'' \<mapsto> [''a'', ''b'']],
                 functionPaths := [''/a.ts'' \<mapsto> ''a'', ''/b.ts'' \<mapsto> ''b'']\<rparr>"
  have run: "processGraph example_platform (Some fanout_graph) ?R = (Inr (), ?R')"
    by (rule processGraph_fanout) (simp add: example_registry_simps)
  have names: "\<forall>f \<in> set (functionList ?R). name f \<noteq> []"
    by (simp add: example_registry_simps fanout_functions_def)
  have files: "\<forall>f \<in> set (functionList ?R). \<forall>g \<in> set (functionList ?R).
                 path f = path g \<longrightarrow> name f = name g"
    by (simp add: example_registry_simps fanout_functions_def)
  have dep: "set (map name (filter (\<lambda>f. depends_on example_platform fanout_graph (path f) ''/dep.ts'')
                 (functionList ?R))) = {''a'', ''b''}"
    by (simp add: example_registry_simps fanout_functions_def depends_on_def fanout_graph_def
        module_dependencies_def file_dependency_def example_platform_simps startsWith_def)
  have b: "\<lparr>name = ''b'', path = ''/b.ts''\<rparr> \<in> set (functionList ?R)"
    by (simp add: example_registry_simps fanout_functions_def)
  have absent: "processGraph example_platform None
           (?R\<lparr>dependencyPaths := [''/old.ts'' \<mapsto> [''a'']]\<rparr>)
         = (Inr (), ?R\<lparr>dependencyPaths := [''/old.ts'' \<mapsto> [''a'']]\<rparr>
              \<lparr>effects := effects (?R\<lparr>dependencyPaths := [''/old.ts'' \<mapsto> [''a'']]\<rparr>) @ [Warn graph_warning]\<rparr>)"
    by (rule processGraph_indexes[THEN conjunct1])
  note present = processGraph_indexes[of example_platform ?R fanout_graph ?R',
      THEN conjunct2, THEN mp, OF conjI[OF names conjI[OF files run]]]
  from present[THEN conjunct1, THEN bspec, OF b]
  have fb: "functionPaths ?R' ''/b.ts'' = Some ''b''"
    by simp
  from present[THEN conjunct2, THEN conjunct2, THEN spec, of "''/dep.ts''"]
  have nd: "names_at (dependencyPaths ?R') ''/dep.ts'' = {''a'', ''b''}"
    by (simp only: dep)
  show ?thesis
    unfolding run absent using fb nd by simp
qed

section \<open>Properties of the build\<close>

lemma processGraph_cases:
  obtains (absent) "gr = None"
      "processGraph P gr st = (Inr (), st\<lparr>effects := effects st @ [Warn graph_warning]\<rparr>)"
    | (thrown) e where "processGraph P gr st = (Inl e, st)"
    | (indexed) deps fp where
      "processGraph P gr st = (Inr (), st\<lparr>dependencyPaths := deps, functionPaths := fp\<rparr>)"
proof (cases gr)
  case None
  then show ?thesis using absent by (simp add: processGraph_def)
next
  case (Some g)
  show ?thesis
  proof (cases "process_modules P (new_Map (map (\<lambda>func. (path func, name func)) (functionList st)))
                  (modules g) Map.empty")
    case (Inl e)
    with Some show ?thesis using thrown by (simp add: processGraph_def)
  next
    case (Inr deps)
    with Some show ?thesis using indexed by (simp add: processGraph_def)
  qed
qed

lemma processGraph_keeps:
  "declarationsFromSource (snd (processGraph P gr st)) = declarationsFromSource st"
  "buildError (snd (processGraph P gr st)) = buildError st"
  "functionList (snd (processGraph P gr st)) = functionList st"
  "rebuilds (effects (snd (processGraph P gr st))) = rebuilds (effects st)"
  by (cases rule: processGraph_cases[of gr P st]; simp add: rebuilds_def)+

lemma enumerate_map_nth:
  "map (\<lambda>(index, x). f index x) (enumerate 0 xs) = map (\<lambda>i. f i (xs ! i)) [0..<length xs]"
  by (rule nth_equalityI) (simp_all add: nth_enumerate_eq)

lemma build_throw:
  assumes "runIsolate st fs (env st) = Inl e"
  shows "build P fs st = (Inl e, st\<lparr>effects := effects st @ [RunIsolate fs], buildError := Some e\<rparr>)"
  using assms by (simp add: build_def)

lemma build_failure:
  assumes "runIsolate st fs (env st) = Inr r" and "\<not> success r"
  shows "build P fs st
         = (Inl (Error ''Build error''),
            st\<lparr>effects := effects st @ [RunIsolate fs], buildError := Some (Error ''Build error'')\<rparr>)"
  using assms by (simp add: build_def)

lemma build_success:
  assumes "runIsolate st fs (env st) = Inr r" and "success r"
  shows "build P fs st
         = (case processGraph P (graph r)
                  (st\<lparr>effects := effects st @ [RunIsolate fs], buildError := None,
                      declarationsFromSource :=
                        map (\<lambda>i. spread [''function'' \<mapsto> Str (name (fs ! i))]
                                    (if i < length (functionsConfig r) then functionsConfig r ! i
                                     else Map.empty))
                          [0..<length fs]\<rparr>) of
              (Inl e, st3) \<Rightarrow> (Inl e, st3\<lparr>buildError := Some e\<rparr>)
            | (Inr u, st3) \<Rightarrow> (Inr u, st3))"
proof -
  have "map (\<lambda>(index, func). declaration_of_source (functionsConfig r) index func) (enumerate 0 fs)
        = map (\<lambda>i. spread [''function'' \<mapsto> Str (name (fs ! i))]
                                    (if i < length (functionsConfig r) then functionsConfig r ! i
                                     else Map.empty))
                          [0..<length fs]"
    unfolding enumerate_map_nth declaration_of_source_def ..
  with assms show ?thesis by (simp add: build_def)
qed

text \<open>
  Claim C2. When \<open>runIsolate\<close> throws, or answers without success, \<open>build\<close> throws (the
  error of the isolate, or \<open>Build error\<close>), records what it throws in \<open>buildError\<close>, and
  leaves \<open>declarationsFromSource\<close>, \<open>functionPaths\<close> and \<open>dependencyPaths\<close> as they
  were. When \<open>runIsolate\<close> answers with success, \<open>declarationsFromSource\<close> becomes the
  list that has, at the position of each function given, its name under \<open>function\<close>
  with the configuration at that position merged over it; then the graph is processed,
  in the state where \<open>buildError\<close> is none and the declarations are replaced: the
  indexes are those that \<open>processGraph\<close> leaves, and \<open>buildError\<close> is none unless
  \<open>processGraph\<close> throws.
\<close>

theorem build_outcome:
  "(\<forall>e. runIsolate st fs (env st) = Inl e \<longrightarrow>
        fst (build P fs st) = Inl e
      \<and> buildError (snd (build P fs st)) = Some e
      \<and> declarationsFromSource (snd (build P fs st)) = declarationsFromSource st
      \<and> functionPaths (snd (build P fs st)) = functionPaths st
      \<and> dependencyPaths (snd (build P fs st)) = dependencyPaths st)
   \<and> (\<forall>r. runIsolate st fs (env st) = Inr r \<and> \<not> success r \<longrightarrow>
        fst (build P fs st) = Inl (Error ''Build error'')
      \<and> buildError (snd (build P fs st)) = Some (Error ''Build error'')
      \<and> declarationsFromSource (snd (build P fs st)) = declarationsFromSource st
      \<and> functionPaths (snd (build P fs st)) = functionPaths st
      \<and> dependencyPaths (snd (build P fs st)) = dependencyPaths st)
   \<and> (\<forall>r. runIsolate st fs (env st) = Inr r \<and> success r \<longrightarrow>
        declarationsFromSource (snd (build P fs st))
        = map (\<lambda>i. spread [''function'' \<mapsto> Str (name (fs ! i))]
                      (if i < length (functionsConfig r) then functionsConfig r ! i else Map.empty))
            [0..<length fs]
      \<and> (let processed =
              processGraph P (graph r)
                (st\<lparr>effects := effects st @ [RunIsolate fs], buildError := None,
                    declarationsFromSource := declarationsFromSource (snd (build P fs st))\<rparr>)
         in fst (build P fs st) = fst processed
          \<and> buildError (snd (build P fs st))
            = (case fst processed of Inl e \<Rightarrow> Some e | Inr u \<Rightarrow> None)
          \<and> functionPaths (snd (build P fs st)) = functionPaths (snd processed)
          \<and> dependencyPaths (snd (build P fs st)) = dependencyPaths (snd processed)))"
proof (intro conjI allI impI)
  fix e assume a: "runIsolate st fs (env st) = Inl e"
  note b = build_throw[OF a, of P]
  show "fst (build P fs st) = Inl e" 
    and "buildError (snd (build P fs st)) = Some e"
    and "declarationsFromSource (snd (build P fs st)) = declarationsFromSource st"
    and "functionPaths (snd (build P fs st)) = functionPaths st"
    and "dependencyPaths (snd (build P fs st)) = dependencyPaths st"
    by (simp_all add: b)
next
  fix r assume a: "runIsolate st fs (env st) = Inr r \<and> \<not> success r"
  note b = build_failure[OF conjunct1[OF a] conjunct2[OF a], of P]
  show "fst (build P fs st) = Inl (Error ''Build error'')" 
    and "buildError (snd (build P fs st)) = Some (Error ''Build error'')"
    and "declarationsFromSource (snd (build P fs st)) = declarationsFromSource st"
    and "functionPaths (snd (build P fs st)) = functionPaths st"
    and "dependencyPaths (snd (build P fs st)) = dependencyPaths st"
    by (simp_all add: b)
next
  fix r assume a: "runIsolate st fs (env st) = Inr r \<and> success r"
  let ?ds = "map (\<lambda>i. spread [''function'' \<mapsto> Str (name (fs ! i))]
                      (if i < length (functionsConfig r) then functionsConfig r ! i else Map.empty))
            [0..<length fs]"
  let ?mid = "st\<lparr>effects := effects st @ [RunIsolate fs], buildError := None,
                 declarationsFromSource := ?ds\<rparr>"
  note b = build_success[OF conjunct1[OF a] conjunct2[OF a], of P]
  have keep: "declarationsFromSource (snd (processGraph P (graph r) ?mid)) = ?ds"
    by (simp add: processGraph_keeps)
  show ds: "declarationsFromSource (snd (build P fs st)) = ?ds"
    unfolding b using keep by (cases "processGraph P (graph r) ?mid") (auto split: sum.splits)
  show "let processed =
              processGraph P (graph r)
                (st\<lparr>effects := effects st @ [RunIsolate fs], buildError := None,
                    declarationsFromSource := declarationsFromSource (snd (build P fs st))\<rparr>)
         in fst (build P fs st) = fst processed
          \<and> buildError (snd (build P fs st))
            = (case fst processed of Inl e \<Rightarrow> Some e | Inr u \<Rightarrow> None)
          \<and> functionPaths (snd (build P fs st)) = functionPaths (snd processed)
          \<and> dependencyPaths (snd (build P fs st)) = dependencyPaths (snd processed)"
    unfolding ds Let_def
    by (cases rule: processGraph_cases[of "graph r" P ?mid]; simp add: b)
qed

lemma stale_registry_simps:
  "runIsolate (stale_registry r) fs vars = r"
  "functionList (stale_registry r) = fanout_functions"
  "dependencyPaths (stale_registry r) = [''/old.ts'' \<mapsto> [''a'']]"
  "functionPaths (stale_registry r) = [''/a.ts'' \<mapsto> ''a'']"
  "declarationsFromSource (stale_registry r) = [[''function'' \<mapsto> Str ''a'', ''path'' \<mapsto> Str ''/old'']]"
  by (simp_all add: stale_registry_def example_registry_simps example_runIsolate_def)

text \<open>
  A crash of the isolate and a build without success leave the older index and
  declarations; a build with success replaces them, and a function past the end of the
  configurations gets its name alone.
\<close>

theorem build_outcome_witness:
  "buildError (snd (build example_platform fanout_functions
      (stale_registry (Inl (Error ''isolate crashed''))))) = Some (Error ''isolate crashed'')
   \<and> dependencyPaths (snd (build example_platform fanout_functions
      (stale_registry (Inl (Error ''isolate crashed''))))) = [''/old.ts'' \<mapsto> [''a'']]
   \<and> buildError (snd (build example_platform fanout_functions
      (stale_registry (Inr (fanout_result\<lparr>success := False\<rparr>))))) = Some (Error ''Build error'')
   \<and> declarationsFromSource (snd (build example_platform fanout_functions
      (stale_registry (Inr (fanout_result\<lparr>success := False\<rparr>)))))
     = [[''function'' \<mapsto> Str ''a'', ''path'' \<mapsto> Str ''/old'']]
   \<and> declarationsFromSource (snd (build example_platform fanout_functions
      (stale_registry (Inr fanout_result))))
     = [[''function'' \<mapsto> Str ''a'', ''path'' \<mapsto> Str ''/a''], [''function'' \<mapsto> Str ''b'']]
   \<and> buildError (snd (build example_platform fanout_functions
      (stale_registry (Inr fanout_result)))) = None
   \<and> dependencyPaths (snd (build example_platform fanout_functions
      (stale_registry (Inr fanout_result)))) = [''/dep.ts'' \<mapsto> [''a'', ''b'']]"
proof -
  let ?R1 = "stale_registry (Inl (Error ''isolate crashed''))"
  let ?R2 = "stale_registry (Inr (fanout_result\<lparr>success := False\<rparr>))"
  let ?R3 = "stale_registry (Inr fanout_result)"
  let ?P = example_platform
  let ?fs = fanout_functions
  have r1: "runIsolate ?R1 ?fs (env ?R1) = Inl (Error ''isolate crashed'')"
    by (simp add: stale_registry_simps)
  have r2: "runIsolate ?R2 ?fs (env ?R2) = Inr (fanout_result\<lparr>success := False\<rparr>)
            \<and> \<not> success (fanout_result\<lparr>success := False\<rparr>)"
    by (simp add: stale_registry_simps)
  have r3: "runIsolate ?R3 ?fs (env ?R3) = Inr fanout_result \<and> success fanout_result"
    by (simp add: stale_registry_simps fanout_result_def)
  note t1 = build_outcome[of ?R1 ?fs ?P, THEN conjunct1, THEN spec, THEN mp, OF r1]
  note t2 = build_outcome[of ?R2 ?fs ?P, THEN conjunct2, THEN conjunct1, THEN spec, THEN mp, OF r2]
  note t3 = build_outcome[of ?R3 ?fs ?P, THEN conjunct2, THEN conjunct2, THEN spec, THEN mp, OF r3]
  have ds: "declarationsFromSource (snd (build ?P ?fs ?R3))
            = [[''function'' \<mapsto> Str ''a'', ''path'' \<mapsto> Str ''/a''], [''function'' \<mapsto> Str ''b'']]"
    unfolding t3[THEN conjunct1]
    by (simp add: fanout_functions_def fanout_result_def spread_def upt_rec)
  have g: "graph fanout_result = Some fanout_graph"
    by (simp add: fanout_result_def)
  from t3[THEN conjunct2]
  have "buildError (snd (build ?P ?fs ?R3)) = None
        \<and> dependencyPaths (snd (build ?P ?fs ?R3)) = [''/dep.ts'' \<mapsto> [''a'', ''b'']]"
    by (simp add: Let_def g processGraph_fanout stale_registry_simps)
  with t1 t2 ds show ?thesis
    by (simp add: stale_registry_simps)
qed

section \<open>Properties of the change handlers\<close>

lemma rebuilds_Log_map: "rebuilds (map (\<lambda>x. Log (f x)) xs) = []"
  by (induction xs) (simp_all add: rebuilds_def)

lemma rebuilds_simps:
  "rebuilds [] = []"
  "rebuilds (es @ es') = rebuilds es @ rebuilds es'"
  "rebuilds (RunIsolate fs # es) = fs # rebuilds es"
  "rebuilds (Log msg # es) = rebuilds es"
  "rebuilds (Warn w # es) = rebuilds es"
  by (simp_all add: rebuilds_def)

lemma processGraph_effects_prefix:
  "take (length (effects st)) (effects (snd (processGraph P gr st))) = effects st"
  by (cases rule: processGraph_cases[of gr P st]; simp)

lemma build_state:
  "rebuilds (effects (snd (build P fs st))) = rebuilds (effects st) @ [fs]"
  "functionList (snd (build P fs st)) = functionList st"
  "take (length (effects st)) (effects (snd (build P fs st))) = effects st"
proof -
  have "rebuilds (effects (snd (build P fs st))) = rebuilds (effects st) @ [fs]
        \<and> functionList (snd (build P fs st)) = functionList st
        \<and> take (length (effects st)) (effects (snd (build P fs st))) = effects st"
  proof (cases "runIsolate st fs (env st)")
    case (Inl e)
    show ?thesis by (simp add: build_throw[OF Inl] rebuilds_simps)
  next
    case (Inr r)
    show ?thesis
    proof (cases "success r")
      case False
      show ?thesis by (simp add: build_failure[OF Inr False] rebuilds_simps)
    next
      case True
      let ?mid = "st\<lparr>effects := effects st @ [RunIsolate fs], buildError := None,
                      declarationsFromSource :=
                        map (\<lambda>i. spread [''function'' \<mapsto> Str (name (fs ! i))]
                                    (if i < length (functionsConfig r) then functionsConfig r ! i
                                     else Map.empty))
                          [0..<length fs]\<rparr>"
      let ?X = "effects (snd (processGraph P (graph r) ?mid))"
      have a: "take (Suc (length (effects st))) ?X = effects st @ [RunIsolate fs]"
        using processGraph_effects_prefix[of ?mid P "graph r"] by simp
      have "take (length (effects st)) ?X
            = take (length (effects st)) (take (Suc (length (effects st))) ?X)"
        by (simp add: min_def)
      also have "\<dots> = effects st"
        unfolding a by simp
      finally have pre: "take (length (effects st)) ?X = effects st" .
      show ?thesis
        unfolding build_success[OF Inr True]
        using processGraph_keeps(3,4)[of P "graph r" ?mid] pre
        by (cases "processGraph P (graph r) ?mid") (auto simp: rebuilds_simps split: sum.splits)
    qed
  qed
  then show "rebuilds (effects (snd (build P fs st))) = rebuilds (effects st) @ [fs]"
    and "functionList (snd (build P fs st)) = functionList st"
    and "take (length (effects st)) (effects (snd (build P fs st))) = effects st"
    by simp_all
qed

lemma matchingFunctions_unindexed:
  "functionPaths st p = None \<Longrightarrow> dependencyPaths st p = None \<Longrightarrow> matchingFunctions st p = []"
  by (simp add: matchingFunctions_def new_Set_def)

text \<open>
  Claim C3. For a path that is a key of neither \<open>functionPaths\<close> nor
  \<open>dependencyPaths\<close>: with no build error, \<open>handleFileChange\<close> does nothing at all, so
  no rebuild; with a build error, it extends the effects by exactly one rebuild, of the
  whole current function list.
\<close>

theorem handleFileChange_unindexed:
  "functionPaths st p = None \<and> dependencyPaths st p = None \<longrightarrow>
     (buildError st = None \<longrightarrow> handleFileChange P p st = st)
   \<and> (buildError st \<noteq> None \<longrightarrow>
        rebuilds (effects (handleFileChange P p st)) = rebuilds (effects st) @ [functionList st]
      \<and> take (length (effects st)) (effects (handleFileChange P p st)) = effects st)"
proof (intro impI conjI)
  assume a: "functionPaths st p = None \<and> dependencyPaths st p = None"
  then have m: "matchingFunctions st p = []"
    by (simp add: matchingFunctions_unindexed)
  {
    assume "buildError st = None"
    with m show "handleFileChange P p st = st" by (simp add: handleFileChange_def)
  next
    assume e: "buildError st \<noteq> None"
    let ?st1 = "st\<lparr>effects := effects st @ [Log Reloading]\<rparr>"
    let ?b = "build P (functionList st) ?st1"
    have h: "effects (handleFileChange P p st)
             = effects (snd ?b)
               @ [Log (case fst ?b of Inl x \<Rightarrow> Failed_reloading | Inr u \<Rightarrow> Reloaded_all)]"
      using m e by (cases ?b) (auto simp: handleFileChange_def split: sum.splits)
    have r: "rebuilds (effects (snd ?b)) = rebuilds (effects st) @ [functionList st]"
      using build_state(1)[of P "functionList st" ?st1] by (simp add: rebuilds_simps)
    show "rebuilds (effects (handleFileChange P p st)) = rebuilds (effects st) @ [functionList st]"
      unfolding h by (simp add: rebuilds_simps r)
    have t: "take (Suc (length (effects st))) (effects (snd ?b)) = effects st @ [Log Reloading]"
      using build_state(3)[of ?st1 P "functionList st"] by simp
    have "take (length (effects st)) (effects (snd ?b))
          = take (length (effects st)) (take (Suc (length (effects st))) (effects (snd ?b)))"
      by (simp add: min_def)
    also have "\<dots> = effects st" unfolding t by simp
    finally have t': "take (length (effects st)) (effects (snd ?b)) = effects st" .
    have len: "length (effects st) \<le> length (effects (snd ?b))"
      using t' by (metis length_take min.cobounded1)
    show "take (length (effects st)) (effects (handleFileChange P p st)) = effects st"
      unfolding h using t' len by simp
  }
qed

lemma stale_registry_more:
  "buildError (stale_registry r) = None"
  "effects (stale_registry r) = []"
  by (simp_all add: stale_registry_def example_registry_simps)

text \<open>
  A change to an unrelated file leaves a healthy registry alone, and makes one with a
  build error rebuild its two functions once.
\<close>

theorem handleFileChange_unindexed_witness:
  "handleFileChange example_platform ''/unrelated.ts'' (stale_registry (Inr fanout_result))
   = stale_registry (Inr fanout_result)
   \<and> rebuilds (effects (handleFileChange example_platform ''/unrelated.ts''
        ((stale_registry (Inr fanout_result))\<lparr>buildError := Some (Error ''Build error'')\<rparr>)))
     = [fanout_functions]"
proof -
  let ?R = "stale_registry (Inr fanout_result)"
  let ?R' = "?R\<lparr>buildError := Some (Error ''Build error'')\<rparr>"
  have u: "functionPaths ?R ''/unrelated.ts'' = None \<and> dependencyPaths ?R ''/unrelated.ts'' = None"
    by (simp add: stale_registry_simps)
  have u': "functionPaths ?R' ''/unrelated.ts'' = None \<and> dependencyPaths ?R' ''/unrelated.ts'' = None"
    by (simp add: stale_registry_simps)
  have n: "buildError ?R = None" by (simp add: stale_registry_more)
  have e: "buildError ?R' \<noteq> None" by simp
  note a = handleFileChange_unindexed[of ?R "''/unrelated.ts''" example_platform,
      THEN mp, OF u, THEN conjunct1, THEN mp, OF n]
  note b = handleFileChange_unindexed[of ?R' "''/unrelated.ts''" example_platform,
      THEN mp, OF u', THEN conjunct2, THEN mp, OF e, THEN conjunct1]
  from a b show ?thesis
    by (simp add: stale_registry_simps stale_registry_more rebuilds_simps)
qed

text \<open>
  Claim C4. When the bundler has found its functions: \<open>newFunctions\<close> are the functions
  found whose name and path are those of no previous function and which some config
  declaration names; \<open>deletedFunctions\<close> are the previous functions whose name and path
  are those of no function found; the function list becomes the functions found in
  every case; and there is a rebuild, one and of all the functions found, exactly when
  one of the two lists is not empty. The operation returns normally.
\<close>

theorem checkForAddedOrDeletedFunctions_diff:
  assumes "bundler_find (bundler st) (directories st) = Inr found"
  shows "newFunctions st found
         = filter (\<lambda>f. (name f, path f) \<notin> (\<lambda>e. (name e, path e)) ` set (functionList st)
                      \<and> (\<exists>d \<in> set (declarationsFromConfig st). get_prop d ''function'' = Str (name f)))
             found
       \<and> deletedFunctions st found
         = filter (\<lambda>e. (name e, path e) \<notin> (\<lambda>f. (name f, path f)) ` set found) (functionList st)
       \<and> fst (checkForAddedOrDeletedFunctions P st) = Inr ()
       \<and> functionList (snd (checkForAddedOrDeletedFunctions P st)) = found
       \<and> rebuilds (effects (snd (checkForAddedOrDeletedFunctions P st)))
         = rebuilds (effects st)
           @ (if newFunctions st found = [] \<and> deletedFunctions st found = [] then [] else [found])"
proof -
  have pair: "list_ex (\<lambda>e. name f = name e \<and> path f = path e) xs
              \<longleftrightarrow> (name f, path f) \<in> (\<lambda>e. (name e, path e)) ` set xs" for f :: EdgeFunction and xs
    by (auto simp: list_ex_iff)
  have new: "newFunctions st found
         = filter (\<lambda>f. (name f, path f) \<notin> (\<lambda>e. (name e, path e)) ` set (functionList st)
                      \<and> (\<exists>d \<in> set (declarationsFromConfig st). get_prop d ''function'' = Str (name f)))
             found"
    unfolding newFunctions_def pair by (intro filter_cong refl) (simp add: list_ex_iff)
  have del: "deletedFunctions st found
         = filter (\<lambda>e. (name e, path e) \<notin> (\<lambda>f. (name f, path f)) ` set found) (functionList st)"
    unfolding deletedFunctions_def
    by (intro filter_cong refl) (force simp: list_ex_iff image_iff)
  let ?st1 = "st\<lparr>functionList := found\<rparr>"
  let ?b = "build P found ?st1"
  have run: "fst (checkForAddedOrDeletedFunctions P st) = Inr ()
       \<and> functionList (snd (checkForAddedOrDeletedFunctions P st)) = found
       \<and> rebuilds (effects (snd (checkForAddedOrDeletedFunctions P st)))
         = rebuilds (effects st)
           @ (if newFunctions st found = [] \<and> deletedFunctions st found = [] then [] else [found])"
  proof (cases "newFunctions st found = [] \<and> deletedFunctions st found = []")
    case True
    with assms show ?thesis by (simp add: checkForAddedOrDeletedFunctions_def)
  next
    case False
    have fl: "functionList (snd ?b) = found"
      using build_state(2)[of P found ?st1] by simp
    have rb: "rebuilds (effects (snd ?b)) = rebuilds (effects st) @ [found]"
      using build_state(1)[of P found ?st1] by simp
    show ?thesis
      using assms False fl rb
      by (cases ?b) (auto simp: checkForAddedOrDeletedFunctions_def Let_def rebuilds_simps
          rebuilds_Log_map split: sum.splits)
  qed
  from new del run show ?thesis by blast
qed

lemma scan_registry_simps:
  "bundler_find (bundler (scan_registry previous found cfg)) dirs = Inr found"
  "functionList (scan_registry previous found cfg) = previous"
  "declarationsFromConfig (scan_registry previous found cfg) = cfg"
  "effects (scan_registry previous found cfg) = []"
  by (simp_all add: scan_registry_def example_registry_simps example_bundler_def)

text \<open>
  The example of the specification: \<open>b\<close> appears beside \<open>a\<close>. With a declaration for
  \<open>b\<close> it is new and there is one rebuild; without one there is no rebuild, and the
  function list is replaced all the same.
\<close>

theorem checkForAddedOrDeletedFunctions_diff_witness:
  "newFunctions
     (scan_registry [\<lparr>name = ''a'', path = ''/a.ts''\<rparr>] fanout_functions
        [[''function'' \<mapsto> Str ''b'', ''path'' \<mapsto> Str ''/b'']])
     fanout_functions = [\<lparr>name = ''b'', path = ''/b.ts''\<rparr>]
   \<and> deletedFunctions
     (scan_registry [\<lparr>name = ''a'', path = ''/a.ts''\<rparr>] fanout_functions
        [[''function'' \<mapsto> Str ''b'', ''path'' \<mapsto> Str ''/b'']])
     fanout_functions = []
   \<and> rebuilds (effects (snd (checkForAddedOrDeletedFunctions example_platform
       (scan_registry [\<lparr>name = ''a'', path = ''/a.ts''\<rparr>] fanout_functions
          [[''function'' \<mapsto> Str ''b'', ''path'' \<mapsto> Str ''/b'']]))))
     = [fanout_functions]
   \<and> newFunctions (scan_registry [\<lparr>name = ''a'', path = ''/a.ts''\<rparr>] fanout_functions [])
       fanout_functions = []
   \<and> rebuilds (effects (snd (checkForAddedOrDeletedFunctions example_platform
       (scan_registry [\<lparr>name = ''a'', path = ''/a.ts''\<rparr>] fanout_functions [])))) = []
   \<and> functionList (snd (checkForAddedOrDeletedFunctions example_platform
       (scan_registry [\<lparr>name = ''a'', path = ''/a.ts''\<rparr>] fanout_functions [])))
     = fanout_functions"
proof -
  let ?R = "scan_registry [\<lparr>name = ''a'', path = ''/a.ts''\<rparr>] fanout_functions
        [[''function'' \<mapsto> Str ''b'', ''path'' \<mapsto> Str ''/b'']]"
  let ?Q = "scan_registry [\<lparr>name = ''a'', path = ''/a.ts''\<rparr>] fanout_functions []"
  have f: "bundler_find (bundler ?R) (directories ?R) = Inr fanout_functions"
    by (rule scan_registry_simps)
  have f0: "bundler_find (bundler ?Q) (directories ?Q) = Inr fanout_functions"
    by (rule scan_registry_simps)
  note t = checkForAddedOrDeletedFunctions_diff[OF f, of example_platform]
  note t0 = checkForAddedOrDeletedFunctions_diff[OF f0, of example_platform]
  have new: "newFunctions ?R fanout_functions = [\<lparr>name = ''b'', path = ''/b.ts''\<rparr>]"
    using t[THEN conjunct1]
    by (simp add: scan_registry_simps fanout_functions_def get_prop_def)
  have del: "deletedFunctions ?R fanout_functions = []"
    using t[THEN conjunct2, THEN conjunct1]
    by (simp add: scan_registry_simps fanout_functions_def)
  have new0: "newFunctions ?Q fanout_functions = []"
    using t0[THEN conjunct1]
    by (simp add: scan_registry_simps fanout_functions_def)
  have del0: "deletedFunctions ?Q fanout_functions = []"
    using t0[THEN conjunct2, THEN conjunct1]
    by (simp add: scan_registry_simps fanout_functions_def)
  from t[THEN conjunct2, THEN conjunct2, THEN conjunct2, THEN conjunct2]
       t0[THEN conjunct2, THEN conjunct2, THEN conjunct2]
  show ?thesis
    unfolding new del new0 del0 by (simp add: scan_registry_simps rebuilds_simps)
qed

section \<open>Properties of the URL matcher\<close>

lemma compile_routes_filter:
  "compile_routes P rs = Inr crs \<Longrightarrow>
   map route_function (filter (\<lambda>cr. route_pattern cr urlPath \<and> keep (route_function cr)) crs)
   = map route_function
       (filter (\<lambda>r. pattern_matches P (route_pattern r) urlPath \<and> keep (route_function r)) rs)"
proof (induction rs arbitrary: crs)
  case Nil
  then show ?case by simp
next
  case (Cons r rs)
  from Cons.prems obtain re crs' where
    re: "RegExp P (route_pattern r) = Inr re"
    and rest: "compile_routes P rs = Inr crs'"
    and crs: "crs = \<lparr>route_function = route_function r, route_pattern = re\<rparr> # crs'"
    by (auto split: sum.splits)
  from Cons.IH[OF rest] re show ?case
    by (simp add: crs pattern_matches_def)
qed

lemma some_pattern_list_ex:
  "some_pattern P urlPath ps = Inr b \<Longrightarrow>
   b = list_ex (\<lambda>src. pattern_matches P src urlPath) ps"
proof (induction ps)
  case Nil
  then show ?case by simp
next
  case (Cons p ps)
  from Cons.prems obtain re where re: "RegExp P p = Inr re"
    by (auto split: sum.splits)
  show ?case
  proof (cases "re urlPath")
    case True
    with Cons.prems re show ?thesis by (simp add: pattern_matches_def)
  next
    case False
    with Cons.prems re have "some_pattern P urlPath ps = Inr b" by simp
    from Cons.IH[OF this] False re show ?thesis by (simp add: pattern_matches_def)
  qed
qed

lemma isExcluded_excluded_for:
  "isExcluded P m urlPath n = Inr b \<Longrightarrow> b = excluded_for P m urlPath n"
proof (cases "function_config m n")
  case None
  assume "isExcluded P m urlPath n = Inr b"
  with None show ?thesis by (simp add: isExcluded_def excluded_for_def split: if_splits)
next
  case (Some fc)
  assume "isExcluded P m urlPath n = Inr b"
  with Some have "some_pattern P urlPath (excluded_patterns fc) = Inr b"
    by (simp add: isExcluded_def)
  from some_pattern_list_ex[OF this] Some show ?thesis by (simp add: excluded_for_def)
qed

lemma not_excluded_filter:
  "not_excluded P m urlPath crs = Inr ns \<Longrightarrow>
   ns = map route_function (filter (\<lambda>cr. \<not> excluded_for P m urlPath (route_function cr)) crs)"
proof (induction crs arbitrary: ns)
  case Nil
  then show ?case by simp
next
  case (Cons cr crs)
  from Cons.prems obtain excluded ns' where
    ex: "isExcluded P m urlPath (route_function cr) = Inr excluded"
    and rest: "not_excluded P m urlPath crs = Inr ns'"
    and ns: "ns = (if excluded then ns' else route_function cr # ns')"
    by (auto split: sum.splits)
  have "excluded = excluded_for P m urlPath (route_function cr)"
    by (rule isExcluded_excluded_for[OF ex])
  with Cons.IH[OF rest] ns show ?case by simp
qed

lemma compile_routes_returns:
  "\<forall>r \<in> set rs. \<not> isl (RegExp P (route_pattern r)) \<Longrightarrow> \<not> isl (compile_routes P rs)"
  by (induction rs) (auto split: sum.splits)

lemma some_pattern_returns:
  "\<forall>src \<in> set ps. \<not> isl (RegExp P src) \<Longrightarrow> \<not> isl (some_pattern P urlPath ps)"
  by (induction ps) (auto split: sum.splits)

lemma not_excluded_returns:
  assumes "\<forall>n fc. function_config m n = Some fc \<longrightarrow>
             (\<forall>src \<in> set (excluded_patterns fc). \<not> isl (RegExp P src))"
    and "\<forall>cr \<in> set crs. function_config m (route_function cr) = None \<longrightarrow>
             route_function cr \<notin> set Object_prototype_members"
  shows "\<not> isl (not_excluded P m urlPath crs)"
  using assms(2)
proof (induction crs)
  case Nil
  then show ?case by simp
next
  case (Cons cr crs)
  have "\<not> isl (isExcluded P m urlPath (route_function cr))"
  proof (cases "function_config m (route_function cr)")
    case None
    with Cons.prems show ?thesis by (simp add: isExcluded_def)
  next
    case (Some fc)
    with assms(1) have "\<forall>src \<in> set (excluded_patterns fc). \<not> isl (RegExp P src)" by blast
    from some_pattern_returns[OF this] Some show ?thesis by (simp add: isExcluded_def)
  qed
  moreover have "\<not> isl (not_excluded P m urlPath crs)"
    using Cons.IH Cons.prems by simp
  ultimately show ?case by (auto split: sum.splits)
qed

lemma compile_routes_functions:
  "compile_routes P rs = Inr crs \<Longrightarrow> map route_function crs = map route_function rs"
proof (induction rs arbitrary: crs)
  case Nil
  then show ?case by simp
next
  case (Cons r rs)
  from Cons.prems obtain re crs' where
    rest: "compile_routes P rs = Inr crs'"
    and crs: "crs = \<lparr>route_function = route_function r, route_pattern = re\<rparr> # crs'"
    by (auto split: sum.splits)
  from Cons.IH[OF rest] show ?case by (simp add: crs)
qed

lemma matchURLPath_returns:
  assumes "generateManifest (bundler st)
             \<lparr>opt_declarations = mergeDeclarations st,
              opt_functions = map EdgeFunction_object (functionList st)\<rparr> = Inr m"
    and "generateManifest (bundler st)
             \<lparr>opt_declarations = declarationsFromConfig st,
              opt_functions =
                map (\<lambda>declaration. [''name'' \<mapsto> get_prop declaration ''function'', ''path'' \<mapsto> Str []])
                  (declarationsFromConfig st)\<rparr> = Inr m'"
    and "\<forall>r \<in> set (routes m @ post_cache_routes m). \<not> isl (RegExp P (route_pattern r))"
    and "\<forall>r \<in> set (routes m' @ post_cache_routes m'). \<not> isl (RegExp P (route_pattern r))"
    and "\<forall>n fc. function_config m n = Some fc \<longrightarrow>
             (\<forall>src \<in> set (excluded_patterns fc). \<not> isl (RegExp P src))"
    and "\<forall>r \<in> set (routes m @ post_cache_routes m).
           function_config m (route_function r) = None \<longrightarrow>
           route_function r \<notin> set Object_prototype_members"
  shows "\<not> isl (matchURLPath P urlPath st)"
proof -
  obtain crs where crs: "compile_routes P (routes m @ post_cache_routes m) = Inr crs"
    using compile_routes_returns[OF assms(3)] by (cases "compile_routes P (routes m @ post_cache_routes m)") auto
  obtain crs' where crs': "compile_routes P (routes m' @ post_cache_routes m') = Inr crs'"
    using compile_routes_returns[OF assms(4)] by (cases "compile_routes P (routes m' @ post_cache_routes m')") auto
  have names: "route_function ` set crs = route_function ` set (routes m @ post_cache_routes m)"
    using compile_routes_functions[OF crs] by (metis set_map)
  have own: "\<forall>cr \<in> set (filter (\<lambda>r. route_pattern r urlPath) crs).
               function_config m (route_function cr) = None \<longrightarrow>
               route_function cr \<notin> set Object_prototype_members"
  proof
    fix cr assume "cr \<in> set (filter (\<lambda>r. route_pattern r urlPath) crs)"
    then have "route_function cr \<in> route_function ` set crs" by simp
    then obtain r where "r \<in> set (routes m @ post_cache_routes m)"
      and "route_function r = route_function cr"
      unfolding names by force
    with assms(6) show "function_config m (route_function cr) = None \<longrightarrow>
               route_function cr \<notin> set Object_prototype_members" by metis
  qed
  obtain ns where ns: "not_excluded P m urlPath (filter (\<lambda>r. route_pattern r urlPath) crs) = Inr ns"
    using not_excluded_returns[OF assms(5) own, of urlPath]
    by (cases "not_excluded P m urlPath (filter (\<lambda>r. route_pattern r urlPath) crs)") auto
  have "\<not> isl (matchURLPathAgainstOrphanedDeclarations P urlPath st)"
    by (simp add: matchURLPathAgainstOrphanedDeclarations_def assms(2) crs')
  then obtain orphans where "matchURLPathAgainstOrphanedDeclarations P urlPath st = Inr orphans"
    by (cases "matchURLPathAgainstOrphanedDeclarations P urlPath st") auto
  then show ?thesis
    by (simp add: matchURLPath_def assms(1) crs ns)
qed

lemma routing_registry_simps:
  "generateManifest (bundler (routing_registry fs cfg excluded)) opts
   = Inr \<lparr> routes = example_routes False opts,
           post_cache_routes = example_routes True opts,
           function_config =
             (\<lambda>n. map_option (\<lambda>ps. \<lparr>excluded_patterns = ps\<rparr>) (map_of excluded n)) \<rparr>"
  "functionList (routing_registry fs cfg excluded) = fs"
  "declarationsFromConfig (routing_registry fs cfg excluded) = cfg"
  "declarationsFromSource (routing_registry fs cfg excluded) = []"
  by (simp_all add: routing_registry_def example_registry_simps example_bundler_def)

lemma example_run:
  "matchURLPath example_platform ''/x''
     (routing_registry
        [\<lparr>name = ''hello'', path = ''/hello.ts''\<rparr>, \<lparr>name = ''auth'', path = ''/auth.ts''\<rparr>]
        [[''function'' \<mapsto> Str ''hello'', ''path'' \<mapsto> Str ''/x''],
         [''function'' \<mapsto> Str ''auth'', ''path'' \<mapsto> Str ''/x''],
         [''function'' \<mapsto> Str ''hello'', ''path'' \<mapsto> Str ''/x'', ''cache'' \<mapsto> Str ''manual'']]
        [(''auth'', [''^/admin$'', ''^/x$''])])
   = Inr \<lparr>functionNames = [''hello'', ''hello''], orphanedDeclarations = []\<rparr>"
  by (simp add: matchURLPath_def matchURLPathAgainstOrphanedDeclarations_def
      routing_registry_simps mergeDeclarations_def merged_declarations_def has_prop_def
      example_routes_def EdgeFunction_object_def get_prop_def example_platform_simps
      isExcluded_def Object_prototype_members_def)

text \<open>
  Claim C6. When \<open>matchURLPath\<close> returns, its \<open>functionNames\<close> are the functions of the
  routes of the manifest generated from the merged declarations and the current
  functions, the routes before the cache first and those after it next, each route as
  often as it occurs, that have a pattern which matches the path and a function none of
  whose exclusion patterns in the manifest matches it.
\<close>

theorem matchURLPath_functionNames:
  assumes "generateManifest (bundler st)
             \<lparr>opt_declarations = mergeDeclarations st,
              opt_functions = map EdgeFunction_object (functionList st)\<rparr> = Inr m"
    and "matchURLPath P urlPath st = Inr res"
  shows "functionNames res
         = map route_function
             (filter (\<lambda>r. pattern_matches P (route_pattern r) urlPath
                          \<and> \<not> excluded_for P m urlPath (route_function r))
                (routes m @ post_cache_routes m))"
proof -
  from assms obtain crs ns where
    crs: "compile_routes P (routes m @ post_cache_routes m) = Inr crs"
    and ns: "not_excluded P m urlPath (filter (\<lambda>r. route_pattern r urlPath) crs) = Inr ns"
    and res: "functionNames res = ns"
    by (auto simp: matchURLPath_def split: sum.splits)
  have "ns = map route_function
               (filter (\<lambda>cr. route_pattern cr urlPath
                             \<and> \<not> excluded_for P m urlPath (route_function cr)) crs)"
    using not_excluded_filter[OF ns] by (simp add: conj_commute)
  also have "\<dots> = map route_function
             (filter (\<lambda>r. pattern_matches P (route_pattern r) urlPath
                          \<and> \<not> excluded_for P m urlPath (route_function r))
                (routes m @ post_cache_routes m))"
    by (rule compile_routes_filter[OF crs])
  finally show ?thesis by (simp only: res)
qed


text \<open>
  Two routes of \<open>hello\<close> match \<open>/x\<close>, one before and one after the cache, and both are
  named; the route of \<open>auth\<close> matches too, and is left out by an exclusion pattern.
\<close>

theorem matchURLPath_functionNames_witness:
  "(case matchURLPath example_platform ''/x''
      (routing_registry
        [\<lparr>name = ''hello'', path = ''/hello.ts''\<rparr>, \<lparr>name = ''auth'', path = ''/auth.ts''\<rparr>]
        [[''function'' \<mapsto> Str ''hello'', ''path'' \<mapsto> Str ''/x''],
         [''function'' \<mapsto> Str ''auth'', ''path'' \<mapsto> Str ''/x''],
         [''function'' \<mapsto> Str ''hello'', ''path'' \<mapsto> Str ''/x'', ''cache'' \<mapsto> Str ''manual'']]
        [(''auth'', [''^/admin$'', ''^/x$''])]) of
      Inl e \<Rightarrow> False
    | Inr res \<Rightarrow> functionNames res = [''hello'', ''hello''])"
proof -
  let ?R = "routing_registry
        [\<lparr>name = ''hello'', path = ''/hello.ts''\<rparr>, \<lparr>name = ''auth'', path = ''/auth.ts''\<rparr>]
        [[''function'' \<mapsto> Str ''hello'', ''path'' \<mapsto> Str ''/x''],
         [''function'' \<mapsto> Str ''auth'', ''path'' \<mapsto> Str ''/x''],
         [''function'' \<mapsto> Str ''hello'', ''path'' \<mapsto> Str ''/x'', ''cache'' \<mapsto> Str ''manual'']]
        [(''auth'', [''^/admin$'', ''^/x$''])]"
  let ?opts = "\<lparr>opt_declarations = mergeDeclarations ?R,
              opt_functions = map EdgeFunction_object (functionList ?R)\<rparr>"
  let ?M = "\<lparr> routes = example_routes False ?opts,
           post_cache_routes = example_routes True ?opts,
           function_config =
             (\<lambda>n. map_option (\<lambda>ps. \<lparr>excluded_patterns = ps\<rparr>)
                    (map_of [(''auth'', [''^/admin$'', ''^/x$''])] n)) \<rparr>"
  have gen: "generateManifest (bundler ?R) ?opts = Inr ?M"
    by (rule routing_registry_simps)
  have "\<not> isl (matchURLPath example_platform ''/x'' ?R)"
    by (simp add: example_run)
  then obtain res where run: "matchURLPath example_platform ''/x'' ?R = Inr res"
    by (cases "matchURLPath example_platform ''/x'' ?R") auto
  have "functionNames res = [''hello'', ''hello'']"
    unfolding matchURLPath_functionNames[OF gen run]
    by (simp add: routing_registry_simps mergeDeclarations_def merged_declarations_def has_prop_def
        example_routes_def EdgeFunction_object_def pattern_matches_def excluded_for_def
        example_platform_simps)
  then show ?thesis by (simp add: run)
qed


text \<open>
  Claim C7. When \<open>matchURLPath\<close> returns, its \<open>orphanedDeclarations\<close> are computed from
  the manifest generated from the config declarations alone, with one function of empty
  path for each declaration, whatever the current functions are: they are the functions
  of the routes whose pattern matches the path and whose function is the name of no
  current function.
\<close>

theorem matchURLPath_orphanedDeclarations:
  assumes "generateManifest (bundler st)
             \<lparr>opt_declarations = declarationsFromConfig st,
              opt_functions =
                map (\<lambda>declaration. [''name'' \<mapsto> get_prop declaration ''function'', ''path'' \<mapsto> Str []])
                  (declarationsFromConfig st)\<rparr> = Inr m"
    and "matchURLPath P urlPath st = Inr res"
  shows "orphanedDeclarations res
         = map route_function
             (filter (\<lambda>r. pattern_matches P (route_pattern r) urlPath
                          \<and> route_function r \<notin> name ` set (functionList st))
                (routes m @ post_cache_routes m))"
proof -
  from assms(2) obtain orphans where
    o: "matchURLPathAgainstOrphanedDeclarations P urlPath st = Inr orphans"
    and res: "orphanedDeclarations res = orphans"
    by (auto simp: matchURLPath_def split: sum.splits)
  from o assms(1) obtain crs where
    crs: "compile_routes P (routes m @ post_cache_routes m) = Inr crs"
    and orphans: "orphans = map route_function
                      (filter (\<lambda>r. if list_ex (\<lambda>func. name func = route_function r) (functionList st)
                                   then False else route_pattern r urlPath)
                         crs)"
    by (auto simp: matchURLPathAgainstOrphanedDeclarations_def split: sum.splits)
  have "orphans = map route_function
               (filter (\<lambda>cr. route_pattern cr urlPath
                             \<and> route_function cr \<notin> name ` set (functionList st)) crs)"
    unfolding orphans by (intro arg_cong[where f="map route_function"] filter_cong refl)
      (force simp: list_ex_iff image_iff)
  also have "\<dots> = map route_function
             (filter (\<lambda>r. pattern_matches P (route_pattern r) urlPath
                          \<and> route_function r \<notin> name ` set (functionList st))
                (routes m @ post_cache_routes m))"
    by (rule compile_routes_filter[OF crs])
  finally show ?thesis by (simp only: res)
qed

text \<open>
  The declaration of \<open>ghost\<close>, for which there is no function, is orphaned at
  \<open>/ghost\<close>; that of \<open>hello\<close>, for the same path, is not.
\<close>

theorem matchURLPath_orphanedDeclarations_witness:
  "(case matchURLPath example_platform ''/ghost''
      (routing_registry
        [\<lparr>name = ''hello'', path = ''/hello.ts''\<rparr>]
        [[''function'' \<mapsto> Str ''ghost'', ''path'' \<mapsto> Str ''/ghost''],
         [''function'' \<mapsto> Str ''hello'', ''path'' \<mapsto> Str ''/ghost'']]
        []) of
      Inl e \<Rightarrow> False
    | Inr res \<Rightarrow> orphanedDeclarations res = [''ghost''])"
proof -
  let ?R = "routing_registry
        [\<lparr>name = ''hello'', path = ''/hello.ts''\<rparr>]
        [[''function'' \<mapsto> Str ''ghost'', ''path'' \<mapsto> Str ''/ghost''],
         [''function'' \<mapsto> Str ''hello'', ''path'' \<mapsto> Str ''/ghost'']]
        []"
  let ?opts = "\<lparr>opt_declarations = declarationsFromConfig ?R,
              opt_functions =
                map (\<lambda>declaration. [''name'' \<mapsto> get_prop declaration ''function'', ''path'' \<mapsto> Str []])
                  (declarationsFromConfig ?R)\<rparr>"
  let ?M = "\<lparr> routes = example_routes False ?opts,
           post_cache_routes = example_routes True ?opts,
           function_config =
             (\<lambda>n. map_option (\<lambda>ps. \<lparr>excluded_patterns = ps\<rparr>) (map_of [] n)) \<rparr>"
  have gen: "generateManifest (bundler ?R) ?opts = Inr ?M"
    by (rule routing_registry_simps)
  have "\<not> isl (matchURLPath example_platform ''/ghost'' ?R)"
    by (simp add: matchURLPath_def matchURLPathAgainstOrphanedDeclarations_def
      routing_registry_simps mergeDeclarations_def merged_declarations_def has_prop_def
      example_routes_def EdgeFunction_object_def get_prop_def example_platform_simps
      isExcluded_def Object_prototype_members_def)
  then obtain res where run: "matchURLPath example_platform ''/ghost'' ?R = Inr res"
    by (cases "matchURLPath example_platform ''/ghost'' ?R") auto
  have "orphanedDeclarations res = [''ghost'']"
    unfolding matchURLPath_orphanedDeclarations[OF gen run]
    by (simp add: routing_registry_simps get_prop_def
        example_routes_def pattern_matches_def example_platform_simps)
  then show ?thesis by (simp add: run)
qed

end
